theory Spec2Isabelle
  imports Complex_Main "HOL-Library.AList" "HOL-Library.Multiset" "HOL-Library.Product_Lexorder"
begin

section \<open>JavaScript values\<close>

text \<open>
  The pipeline under verification is the server side of the Excel dashboard:
  \<^verbatim>\<open>analyzeColumnType\<close> and \<^verbatim>\<open>processExcelFile\<close> of \<^verbatim>\<open>routes/upload.js\<close>, and
  \<^verbatim>\<open>calculateStatistics\<close> and \<^verbatim>\<open>processChartData\<close> of the analysis routes.
\<close>

subsection \<open>Numbers\<close>

text \<open>
  A JavaScript number is an IEEE 754 double: \<open>NaN\<close>, an infinity, or a finite
  value \<open>m \<cdot> 2\<^sup>e\<close> with \<open>\<bar>m\<bar> < 2\<^sup>5\<^sup>3\<close> and \<open>-1074 \<le> e \<le> 971\<close>. Every arithmetic
  operation computes the exact result and rounds it to the nearest double,
  to the one with the even significand when two are equally near, and to an
  infinity when the rounded result reaches \<open>2\<^sup>1\<^sup>0\<^sup>2\<^sup>4\<close>.

  \<open>binade x\<close> is the exponent \<open>e\<close> with \<open>2\<^sup>e \<le> x < 2\<^sup>e\<^sup>+\<^sup>1\<close> of a positive \<open>x\<close>. The
  doubles around \<open>x\<close> are the multiples of \<open>quantum x\<close>: 52 binary places below
  the leading one, and \<open>2\<^sup>-\<^sup>1\<^sup>0\<^sup>7\<^sup>4\<close> for the subnormal numbers below \<open>2\<^sup>-\<^sup>1\<^sup>0\<^sup>2\<^sup>2\<close>.
\<close>

function binade :: "real \<Rightarrow> int" where
  "binade x = (if 2 \<le> x then binade (x / 2) + 1
               else if 0 < x \<and> x < 1 then binade (x * 2) - 1 else 0)"
  by pat_completeness auto
termination
proof (relation "measure (\<lambda>x. nat \<bar>\<lfloor>log 2 x\<rfloor>\<bar>)")
  show "wf (measure (\<lambda>x. nat \<bar>\<lfloor>log 2 x\<rfloor>\<bar>))" by simp
next
  fix x :: real assume x: "2 \<le> x"
  then have "log 2 (x / 2) = log 2 x - 1"
    by (simp add: log_divide_pos)
  moreover from x have "1 \<le> log 2 x"
    by (simp add: le_log_iff)
  then have "1 \<le> \<lfloor>log 2 x\<rfloor>" by linarith
  ultimately show "(x / 2, x) \<in> measure (\<lambda>x. nat \<bar>\<lfloor>log 2 x\<rfloor>\<bar>)"
    by simp
next
  fix x :: real assume x: "\<not> 2 \<le> x" "0 < x \<and> x < 1"
  then have "log 2 (x * 2) = log 2 x + 1"
    by (simp add: log_mult_pos)
  moreover from x have "log 2 x < 0"
    by simp
  then have "\<lfloor>log 2 x\<rfloor> \<le> - 1" by linarith
  ultimately show "(x * 2, x) \<in> measure (\<lambda>x. nat \<bar>\<lfloor>log 2 x\<rfloor>\<bar>)"
    by simp
qed

declare binade.simps [simp del]

definition nearest_even :: "real \<Rightarrow> int" where
  "nearest_even z =
     (if z - of_int \<lfloor>z\<rfloor> < 1 / 2 then \<lfloor>z\<rfloor>
      else if 1 / 2 < z - of_int \<lfloor>z\<rfloor> then \<lfloor>z\<rfloor> + 1
      else if even \<lfloor>z\<rfloor> then \<lfloor>z\<rfloor> else \<lfloor>z\<rfloor> + 1)"

definition quantum :: "real \<Rightarrow> real" where
  "quantum x = 2 powi (max (binade \<bar>x\<bar>) (- 1022) - 52)"

text \<open>
  \<open>rnd x\<close> is \<open>x\<close> rounded to the nearest multiple of its quantum, before any
  overflow. The finite doubles are the fixed points of \<open>rnd\<close> below \<open>2\<^sup>1\<^sup>0\<^sup>2\<^sup>4\<close>;
  the two zeros of IEEE 754 are one number here (the program does not tell
  them apart: it never divides by a computed value, and both print as \<^verbatim>\<open>0\<close>).
\<close>

definition rnd :: "real \<Rightarrow> real" where
  "rnd x = of_int (nearest_even (x / quantum x)) * quantum x"

definition representable :: "real \<Rightarrow> bool" where
  "representable x \<longleftrightarrow> rnd x = x \<and> \<bar>x\<bar> < 2 ^ 1024"

typedef double = "{x. representable x}"
  morphisms dval Dbl
  by (rule exI [of _ 0]) (simp add: representable_def rnd_def nearest_even_def)

datatype jsnum = NaN | PInf | NInf | Fin double

text \<open>The number for a real value: the nearest double, or an infinity.\<close>

definition dbl :: "real \<Rightarrow> jsnum" where
  "dbl x = (if 2 ^ 1024 \<le> rnd x then PInf
            else if rnd x \<le> - (2 ^ 1024) then NInf
            else Fin (Dbl (rnd x)))"

text \<open>The smallest positive double, \<^verbatim>\<open>Number.MIN_VALUE\<close>.\<close>

definition MIN_VALUE :: real where
  "MIN_VALUE = 2 powi (- 1074)"

subsection \<open>Values\<close>

text \<open>
  Cell values are primitives. \<open>JBuiltin name\<close> stands for the object that a
  property read finds on \<^verbatim>\<open>Object.prototype\<close> under \<open>name\<close> (a built-in function, or
  the prototype itself for \<^verbatim>\<open>__proto__\<close>) when the object read has no own property
  of that name.
\<close>

datatype jsval = JUndefined | JNull | JBool bool | JNum jsnum | JStr string | JBuiltin string

text \<open>
  What the language leaves to the engine is a parameter of the model:
  whether \<^verbatim>\<open>new Date(s)\<close> is a valid date, the decimal form of a number that is
  not a small integer, the source text of a built-in function, and the
  results of \<^verbatim>\<open>Math.pow\<close> and \<^verbatim>\<open>Math.sqrt\<close>, which the language allows to be
  approximations.
\<close>

record engine =
  dateParses :: "string \<Rightarrow> bool"
  numberToString :: "double \<Rightarrow> string"
  builtinToString :: "string \<Rightarrow> string"
  mathPow :: "jsnum \<Rightarrow> jsnum \<Rightarrow> jsnum"
  mathSqrt :: "jsnum \<Rightarrow> jsnum"

definition typeof :: "jsval \<Rightarrow> string" where
  "typeof v = (case v of
      JUndefined \<Rightarrow> ''undefined''
    | JNull \<Rightarrow> ''object''
    | JBool _ \<Rightarrow> ''boolean''
    | JNum _ \<Rightarrow> ''number''
    | JStr _ \<Rightarrow> ''string''
    | JBuiltin name \<Rightarrow> (if name = ''__proto__'' then ''object'' else ''function''))"

definition isNaN :: "jsnum \<Rightarrow> bool" where
  "isNaN n = (n = NaN)"

text \<open>Negation changes the sign and does not round.\<close>

definition num_neg :: "jsnum \<Rightarrow> jsnum" where
  "num_neg n =
     (case n of NaN \<Rightarrow> NaN | PInf \<Rightarrow> NInf | NInf \<Rightarrow> PInf | Fin r \<Rightarrow> Fin (Dbl (- dval r)))"

subsection \<open>parseFloat\<close>

text \<open>
  \<^verbatim>\<open>parseFloat\<close> converts its argument to a string, skips leading white space and
  reads the longest prefix that is a decimal literal: an optional sign, then
  \<^verbatim>\<open>Infinity\<close> or digits with an optional fraction and an optional exponent.
  The result is the double nearest to the value of the literal (the language
  lets an engine look at the first 20 significant digits only; the engines in
  use round the exact value). Strings are ASCII texts here.
\<close>

definition is_ws :: "char \<Rightarrow> bool" where
  "is_ws c = (c \<in> set [CHR 0x09, CHR 0x0A, CHR 0x0B, CHR 0x0C, CHR 0x0D, CHR 0x20])"

definition is_digit :: "char \<Rightarrow> bool" where
  "is_digit c = (c \<in> set ''0123456789'')"

definition digit_val :: "char \<Rightarrow> int" where
  "digit_val c = of_char c - 48"

definition digits_val :: "string \<Rightarrow> int" where
  "digits_val ds = foldl (\<lambda>n c. 10 * n + digit_val c) 0 ds"

definition scale10 :: "real \<Rightarrow> int \<Rightarrow> real" where
  "scale10 m e = (if 0 \<le> e then m * 10 ^ nat e else m / 10 ^ nat (- e))"

definition exponent_digits :: "string \<Rightarrow> int option" where
  "exponent_digits r =
     (if takeWhile is_digit r = [] then None
      else Some (digits_val (takeWhile is_digit r)))"

definition exponent_part :: "string \<Rightarrow> int" where
  "exponent_part r = (case r of
       [] \<Rightarrow> 0
     | c # r1 \<Rightarrow>
         if c = CHR ''e'' \<or> c = CHR ''E'' then
           (case r1 of
              [] \<Rightarrow> 0
            | s # r2 \<Rightarrow>
                if s = CHR ''-'' then (case exponent_digits r2 of None \<Rightarrow> 0 | Some e \<Rightarrow> - e)
                else if s = CHR ''+'' then (case exponent_digits r2 of None \<Rightarrow> 0 | Some e \<Rightarrow> e)
                else (case exponent_digits r1 of None \<Rightarrow> 0 | Some e \<Rightarrow> e))
         else 0)"

definition unsigned_literal :: "string \<Rightarrow> jsnum" where
  "unsigned_literal u =
     (if take 8 u = ''Infinity'' then PInf
      else
        let ip = takeWhile is_digit u;
            r1 = dropWhile is_digit u;
            dot = (r1 \<noteq> [] \<and> hd r1 = CHR ''.'');
            fp = (if dot then takeWhile is_digit (tl r1) else []);
            r2 = (if dot then dropWhile is_digit (tl r1) else r1)
        in if ip = [] \<and> fp = [] then NaN
           else dbl (scale10 (real_of_int (digits_val ip) + real_of_int (digits_val fp) / 10 ^ length fp)
                             (exponent_part r2)))"

definition parse_decimal :: "string \<Rightarrow> jsnum" where
  "parse_decimal s =
     (case dropWhile is_ws s of
        [] \<Rightarrow> NaN
      | c # u \<Rightarrow>
          if c = CHR ''-'' then num_neg (unsigned_literal u)
          else if c = CHR ''+'' then unsigned_literal u
          else unsigned_literal (c # u))"

text \<open>
  A number prints to a string that reads back as the same number, so
  \<^verbatim>\<open>parseFloat\<close> is the identity on numbers. The strings of the other values
  (\<^verbatim>\<open>undefined\<close>, \<^verbatim>\<open>null\<close>, \<^verbatim>\<open>true\<close>, \<^verbatim>\<open>false\<close>, \<^verbatim>\<open>function ...\<close>, \<^verbatim>\<open>[object Object]\<close>)
  start with no decimal literal.
\<close>

definition parseFloat :: "jsval \<Rightarrow> jsnum" where
  "parseFloat v = (case v of JNum n \<Rightarrow> n | JStr s \<Rightarrow> parse_decimal s | _ \<Rightarrow> NaN)"

section \<open>Column type inference\<close>

subsection \<open>The date pattern\<close>

text \<open>
  \<^verbatim>\<open>value.match(/\d{4}-\d{2}-\d{2}|\d{2}\/\d{2}\/\d{4}/)\<close>: the pattern is not
  anchored, so the match may start at any position of the string.
\<close>

fun dash_date_here :: "string \<Rightarrow> bool" where
  "dash_date_here (a # b # c # d # e # f # g # h # i # j # _) =
     (is_digit a \<and> is_digit b \<and> is_digit c \<and> is_digit d \<and> e = CHR ''-'' \<and>
      is_digit f \<and> is_digit g \<and> h = CHR ''-'' \<and> is_digit i \<and> is_digit j)"
| "dash_date_here _ = False"

fun slash_date_here :: "string \<Rightarrow> bool" where
  "slash_date_here (a # b # c # d # e # f # g # h # i # j # _) =
     (is_digit a \<and> is_digit b \<and> c = CHR ''/'' \<and> is_digit d \<and> is_digit e \<and>
      f = CHR ''/'' \<and> is_digit g \<and> is_digit h \<and> is_digit i \<and> is_digit j)"
| "slash_date_here _ = False"

fun date_pattern_match :: "string \<Rightarrow> bool" where
  "date_pattern_match [] = False"
| "date_pattern_match (c # cs) =
     (dash_date_here (c # cs) \<or> slash_date_here (c # cs) \<or> date_pattern_match cs)"

subsection \<open>analyzeColumnType\<close>

text \<open>
  The body of the \<^verbatim>\<open>for\<close> loop, on the pair of counters
  \<open>(numberCount, dateCount)\<close>. The first test of the source is
  \<^verbatim>\<open>typeof value === 'number' && !isNaN(value)\<close>, the second \<^verbatim>\<open>typeof value === 'string'\<close>:
  they are the cases \<open>JNum\<close> and \<open>JStr\<close>; a value of any other type changes nothing.
\<close>

definition examine :: "engine \<Rightarrow> nat \<times> nat \<Rightarrow> jsval \<Rightarrow> nat \<times> nat" where
  "examine eng counts v =
     (case counts of (numberCount, dateCount) \<Rightarrow>
        if v = JNull \<or> v = JUndefined \<or> v = JStr [] then (numberCount, dateCount)
        else
          (case v of
             JNum n \<Rightarrow>
               if \<not> isNaN n then (numberCount + 1, dateCount)
               else (numberCount, dateCount)
           | JStr s \<Rightarrow>
               if dateParses eng s \<and> date_pattern_match s then (numberCount, dateCount + 1)
               else if \<not> isNaN (parseFloat v) then (numberCount + 1, dateCount)
               else (numberCount, dateCount)
           | _ \<Rightarrow> (numberCount, dateCount)))"

definition analyzeColumnType :: "engine \<Rightarrow> jsval list \<Rightarrow> string" where
  "analyzeColumnType eng vals =
     (if length vals = 0 then ''string''
      else
        (case foldl (examine eng) (0, 0) (take 10 vals) of
           (numberCount, dateCount) \<Rightarrow>
             if numberCount > dateCount \<and> numberCount > 0 then ''number''
             else if dateCount > 0 then ''date''
             else ''string''))"

subsection \<open>Evidence counts, in the words of the specification\<close>

text \<open>
  A text value is date evidence when it matches the pattern and parses to a
  valid date; a value is number evidence when it is a number, or a text that
  is not date evidence and parses as a floating-point number. The counts are
  taken over the first ten values.
\<close>

definition is_date_evidence :: "engine \<Rightarrow> jsval \<Rightarrow> bool" where
  "is_date_evidence eng v =
     (case v of JStr s \<Rightarrow> date_pattern_match s \<and> dateParses eng s | _ \<Rightarrow> False)"

definition is_number_evidence :: "engine \<Rightarrow> jsval \<Rightarrow> bool" where
  "is_number_evidence eng v =
     (case v of
        JNum n \<Rightarrow> n \<noteq> NaN
      | JStr s \<Rightarrow> \<not> is_date_evidence eng v \<and> parseFloat v \<noteq> NaN
      | _ \<Rightarrow> False)"

definition numberEvidence :: "engine \<Rightarrow> jsval list \<Rightarrow> nat" where
  "numberEvidence eng vals = length (filter (is_number_evidence eng) (take 10 vals))"

definition dateEvidence :: "engine \<Rightarrow> jsval list \<Rightarrow> nat" where
  "dateEvidence eng vals = length (filter (is_date_evidence eng) (take 10 vals))"

text \<open>The values that the loop passes over before any test.\<close>

definition skipped :: "jsval \<Rightarrow> bool" where
  "skipped v = (v = JNull \<or> v = JUndefined \<or> v = JStr [])"

text \<open>
  The two shapes of the pattern, as ten-character strings, and the strings
  that contain one of them.
\<close>

definition yyyy_mm_dd :: "string \<Rightarrow> bool" where
  "yyyy_mm_dd t =
     (length t = 10 \<and> is_digit (t ! 0) \<and> is_digit (t ! 1) \<and> is_digit (t ! 2) \<and>
      is_digit (t ! 3) \<and> t ! 4 = CHR ''-'' \<and> is_digit (t ! 5) \<and> is_digit (t ! 6) \<and>
      t ! 7 = CHR ''-'' \<and> is_digit (t ! 8) \<and> is_digit (t ! 9))"

definition dd_mm_yyyy :: "string \<Rightarrow> bool" where
  "dd_mm_yyyy t =
     (length t = 10 \<and> is_digit (t ! 0) \<and> is_digit (t ! 1) \<and> t ! 2 = CHR ''/'' \<and>
      is_digit (t ! 3) \<and> is_digit (t ! 4) \<and> t ! 5 = CHR ''/'' \<and> is_digit (t ! 6) \<and>
      is_digit (t ! 7) \<and> is_digit (t ! 8) \<and> is_digit (t ! 9))"

definition has_date_shape :: "string \<Rightarrow> bool" where
  "has_date_shape s =
     (\<exists>i<length s. yyyy_mm_dd (take 10 (drop i s)) \<or> dd_mm_yyyy (take 10 (drop i s)))"

section \<open>Objects used as dictionaries\<close>

text \<open>
  An object literal \<^verbatim>\<open>{}\<close> has its own properties, kept in creation order, and
  inherits from \<^verbatim>\<open>Object.prototype\<close> until its prototype is set to \<^verbatim>\<open>null\<close>.
\<close>

record jsobject =
  own :: "(string \<times> jsval) list"
  hasProto :: bool

definition objectPrototypeNames :: "string list" where
  "objectPrototypeNames =
     [''constructor'', ''__defineGetter__'', ''__defineSetter__'', ''hasOwnProperty'',
      ''__lookupGetter__'', ''__lookupSetter__'', ''isPrototypeOf'', ''propertyIsEnumerable'',
      ''toString'', ''valueOf'', ''__proto__'', ''toLocaleString'']"

definition empty_object :: jsobject where
  "empty_object = \<lparr>own = [], hasProto = True\<rparr>"

text \<open>\<^verbatim>\<open>obj[k]\<close>: the own property, else the inherited one, else \<^verbatim>\<open>undefined\<close>.\<close>

definition obj_get :: "jsobject \<Rightarrow> string \<Rightarrow> jsval" where
  "obj_get obj k =
     (case map_of (own obj) k of
        Some v \<Rightarrow> v
      | None \<Rightarrow> if hasProto obj \<and> k \<in> set objectPrototypeNames then JBuiltin k else JUndefined)"

text \<open>
  \<^verbatim>\<open>obj[k] = v\<close> for a primitive \<open>v\<close>. The inherited \<^verbatim>\<open>__proto__\<close> is an accessor:
  assigning \<^verbatim>\<open>null\<close> to it removes the prototype, assigning another primitive does
  nothing, and in neither case is an own property created. Every other
  assignment writes an own property, at its old position when it exists and
  at the end otherwise.
\<close>

definition obj_set :: "jsobject \<Rightarrow> string \<Rightarrow> jsval \<Rightarrow> jsobject" where
  "obj_set obj k v =
     (if k = ''__proto__'' \<and> hasProto obj \<and> map_of (own obj) k = None
      then (if v = JNull then obj\<lparr>hasProto := False\<rparr> else obj)
      else obj\<lparr>own := AList.update k v (own obj)\<rparr>)"

subsection \<open>Property keys\<close>

text \<open>The decimal digit \<open>d\<close>, for \<open>d\<close> below ten.\<close>

definition digit_char :: "nat \<Rightarrow> char" where
  "digit_char d = ''0123456789'' ! d"

fun nat_string :: "nat \<Rightarrow> string" where
  "nat_string n = (if n < 10 then [digit_char n] else nat_string (n div 10) @ [digit_char (n mod 10)])"

declare nat_string.simps [simp del]

definition int_string :: "int \<Rightarrow> string" where
  "int_string i = (if i < 0 then CHR ''-'' # nat_string (nat (- i)) else nat_string (nat i))"

text \<open>
  The string of a number: an integer below \<open>2\<^sup>5\<^sup>3\<close> prints its digits, any other
  finite number prints as the engine decides.
\<close>

definition numString :: "engine \<Rightarrow> jsnum \<Rightarrow> string" where
  "numString eng n =
     (case n of
        NaN \<Rightarrow> ''NaN''
      | PInf \<Rightarrow> ''Infinity''
      | NInf \<Rightarrow> ''-Infinity''
      | Fin r \<Rightarrow>
          if dval r = of_int \<lfloor>dval r\<rfloor> \<and> \<bar>dval r\<bar> < 2 ^ 53 then int_string \<lfloor>dval r\<rfloor>
          else numberToString eng r)"

definition toPropertyKey :: "engine \<Rightarrow> jsval \<Rightarrow> string" where
  "toPropertyKey eng v =
     (case v of
        JUndefined \<Rightarrow> ''undefined''
      | JNull \<Rightarrow> ''null''
      | JBool b \<Rightarrow> (if b then ''true'' else ''false'')
      | JNum n \<Rightarrow> numString eng n
      | JStr s \<Rightarrow> s
      | JBuiltin name \<Rightarrow> builtinToString eng name)"

text \<open>
  \<^verbatim>\<open>Object.keys\<close> lists the own keys that are array indices (canonical decimal
  strings below \<open>2\<^sup>3\<^sup>2 - 1\<close>) first, in ascending numeric order, and then the
  other keys in creation order. \<^verbatim>\<open>Object.values\<close> follows the same order.
\<close>

definition is_array_index :: "string \<Rightarrow> bool" where
  "is_array_index k =
     (k \<noteq> [] \<and> list_all is_digit k \<and> (length k = 1 \<or> hd k \<noteq> CHR ''0'') \<and>
      digits_val k < 4294967295)"

definition key_order :: "string list \<Rightarrow> string list" where
  "key_order ks =
     sort_key digits_val (filter is_array_index ks) @ filter (\<lambda>k. \<not> is_array_index k) ks"

definition object_keys :: "jsobject \<Rightarrow> string list" where
  "object_keys obj = key_order (map fst (own obj))"

definition object_values :: "jsobject \<Rightarrow> jsval list" where
  "object_values obj = map (obj_get obj) (object_keys obj)"

section \<open>The tabular ingestor\<close>

datatype error = EmptySheet | NoHeaders | EmptyDataset | TypeError

record column =
  col_name :: jsval
  col_type :: string
  col_sampleValues :: "jsval list"

record processed =
  res_data :: "jsobject list"
  res_columns :: "column list"
  res_rowCount :: nat

text \<open>\<^verbatim>\<open>row[index]\<close> on an array: \<^verbatim>\<open>undefined\<close> past the end.\<close>

definition array_get :: "jsval list \<Rightarrow> nat \<Rightarrow> jsval" where
  "array_get xs i = (if i < length xs then xs ! i else JUndefined)"

text \<open>
  The callback of \<^verbatim>\<open>rows.map\<close>: \<^verbatim>\<open>headers.forEach((header, index) => ...)\<close> over a
  fresh object.
\<close>

definition row_object :: "engine \<Rightarrow> jsval list \<Rightarrow> jsval list \<Rightarrow> jsobject" where
  "row_object eng headers row =
     foldl (\<lambda>obj (index, header).
              obj_set obj (toPropertyKey eng header)
                (if array_get row index \<noteq> JUndefined then array_get row index else JNull))
           empty_object (zip [0..<length headers] headers)"

text \<open>
  \<^verbatim>\<open>processExcelFile\<close>, from the parsed first sheet \<open>jsonData\<close> on (reading the
  workbook, and the failure for a workbook without sheets, are the library's
  part). The two failures are thrown with the messages
  \<^verbatim>\<open>No data found in the Excel file\<close> and \<^verbatim>\<open>No headers found in the Excel file\<close>.
\<close>

definition processExcelFile :: "engine \<Rightarrow> jsval list list \<Rightarrow> error + processed" where
  "processExcelFile eng jsonData =
     (if length jsonData = 0 then Inl EmptySheet
      else
        let headers = hd jsonData; rows = tl jsonData in
        if length headers = 0 then Inl NoHeaders
        else
          let data = map (row_object eng headers) rows;
              columns =
                map (\<lambda>header.
                       let columnValues =
                             filter (\<lambda>val. val \<noteq> JNull \<and> val \<noteq> JUndefined)
                               (map (\<lambda>row. obj_get row (toPropertyKey eng header)) data);
                           sampleValues = take 5 columnValues;
                           columnType = analyzeColumnType eng columnValues
                       in \<lparr>col_name = header, col_type = columnType,
                           col_sampleValues = sampleValues\<rparr>)
                    headers
          in Inr \<lparr>res_data = data, res_columns = columns, res_rowCount = length rows\<rparr>)"

section \<open>Arrays in a store\<close>

text \<open>
  An array is an object with an identity: \<^verbatim>\<open>filter\<close>, \<^verbatim>\<open>slice\<close> and \<^verbatim>\<open>map\<close> create a new
  array, \<^verbatim>\<open>sort\<close> rearranges the array it is called on and returns that same
  array. The store lists the arrays; a reference is a position in it. A
  reference of the program always points to an array of the store.
\<close>

type_synonym 'a heap = "'a list list"

definition alloc :: "'a heap \<Rightarrow> 'a list \<Rightarrow> nat \<times> 'a heap" where
  "alloc h xs = (length h, h @ [xs])"

definition deref :: "'a heap \<Rightarrow> nat \<Rightarrow> 'a list" where
  "deref h a = (if a < length h then h ! a else [])"

definition assign :: "'a heap \<Rightarrow> nat \<Rightarrow> 'a list \<Rightarrow> 'a heap" where
  "assign h a xs = (if a < length h then h[a := xs] else h)"

section \<open>Arithmetic on numbers\<close>

text \<open>
  \<^verbatim>\<open>a + b\<close>, \<^verbatim>\<open>a - b\<close> and \<^verbatim>\<open>a / b\<close>: on finite numbers the exact result, rounded. A
  zero divisor is taken as the positive zero; the divisors of the program
  are the length of a non-empty array and the number \<open>2\<close>.
\<close>

fun num_add :: "jsnum \<Rightarrow> jsnum \<Rightarrow> jsnum" where
  "num_add (Fin x) (Fin y) = dbl (dval x + dval y)"
| "num_add NaN _ = NaN"
| "num_add _ NaN = NaN"
| "num_add PInf NInf = NaN"
| "num_add NInf PInf = NaN"
| "num_add PInf _ = PInf"
| "num_add _ PInf = PInf"
| "num_add NInf _ = NInf"
| "num_add _ NInf = NInf"

definition num_sub :: "jsnum \<Rightarrow> jsnum \<Rightarrow> jsnum" where
  "num_sub a b = num_add a (num_neg b)"

fun num_div :: "jsnum \<Rightarrow> jsnum \<Rightarrow> jsnum" where
  "num_div (Fin x) (Fin y) =
     (if dval y = 0 then (if dval x = 0 then NaN else if 0 < dval x then PInf else NInf)
      else dbl (dval x / dval y))"
| "num_div NaN _ = NaN"
| "num_div _ NaN = NaN"
| "num_div (Fin x) _ = dbl 0"
| "num_div PInf (Fin y) = (if 0 \<le> dval y then PInf else NInf)"
| "num_div NInf (Fin y) = (if 0 \<le> dval y then NInf else PInf)"
| "num_div _ _ = NaN"

text \<open>
  \<^verbatim>\<open>parseFloat(x.toFixed(2))\<close>: \<^verbatim>\<open>toFixed(2)\<close> prints the integer \<open>n\<close> for which
  \<open>n / 100\<close> is nearest to the exact value of the number, the larger one of two
  (on the absolute value, the sign being printed apart), and \<^verbatim>\<open>parseFloat\<close> reads
  the decimal back as the nearest double. From \<open>10\<^sup>2\<^sup>1\<close> on \<^verbatim>\<open>toFixed\<close> prints the
  number as it is. A value that is not finite prints its name and is read
  back unchanged.
\<close>

definition round2 :: "real \<Rightarrow> real" where
  "round2 x = sgn x * real_of_int \<lfloor>\<bar>x\<bar> * 100 + 1 / 2\<rfloor> / 100"

definition toFixed2 :: "jsnum \<Rightarrow> jsnum" where
  "toFixed2 n =
     (case n of
        Fin x \<Rightarrow> if 10 ^ 21 \<le> \<bar>dval x\<bar> then n else dbl (round2 (dval x))
      | _ \<Rightarrow> n)"

text \<open>The truth value of a value in a condition, and \<^verbatim>\<open>n || 0\<close> on a number.\<close>

definition truthy :: "jsval \<Rightarrow> bool" where
  "truthy v =
     (case v of
        JUndefined \<Rightarrow> False
      | JNull \<Rightarrow> False
      | JBool b \<Rightarrow> b
      | JNum n \<Rightarrow> n \<noteq> NaN \<and> n \<noteq> dbl 0
      | JStr s \<Rightarrow> s \<noteq> []
      | JBuiltin _ \<Rightarrow> True)"

definition or_zero :: "jsnum \<Rightarrow> jsnum" where
  "or_zero n = (if truthy (JNum n) then n else dbl 0)"

text \<open>
  An engine for the concrete evaluations below. Its \<^verbatim>\<open>Math.pow\<close>, which the
  program calls with the exponent \<open>2\<close> only, and its \<^verbatim>\<open>Math.sqrt\<close> round the exact
  square and the exact square root.
\<close>

definition square_nearest :: "jsnum \<Rightarrow> jsnum" where
  "square_nearest n = (case n of Fin x \<Rightarrow> dbl (dval x * dval x) | NaN \<Rightarrow> NaN | _ \<Rightarrow> PInf)"

definition sqrt_nearest :: "jsnum \<Rightarrow> jsnum" where
  "sqrt_nearest n =
     (case n of
        Fin x \<Rightarrow> if dval x < 0 then NaN else dbl (sqrt (dval x))
      | PInf \<Rightarrow> PInf
      | _ \<Rightarrow> NaN)"

definition eng0 :: engine where
  "eng0 = \<lparr>dateParses = (\<lambda>s. True), numberToString = (\<lambda>r. ''?''),
            builtinToString = (\<lambda>n. ''function''),
            mathPow = (\<lambda>x y. if y = dbl 2 then square_nearest x else NaN),
            mathSqrt = sqrt_nearest\<rparr>"

section \<open>The statistics calculator\<close>

record statistics =
  st_mean :: jsnum
  st_median :: jsnum
  st_mode :: jsnum
  st_range :: jsnum
  st_standardDeviation :: jsnum

text \<open>
  The number in an array element. It is applied to the elements of
  \<open>numbers\<close>, which passed the test \<^verbatim>\<open>typeof val === 'number'\<close>, and to a read past
  the end of an array, which is \<^verbatim>\<open>undefined\<close> and counts as \<open>NaN\<close> in arithmetic.
\<close>

definition num_of :: "jsval \<Rightarrow> jsnum" where
  "num_of v = (case v of JNum n \<Rightarrow> n | _ \<Rightarrow> NaN)"

text \<open>
  \<^verbatim>\<open>numbers.sort((a, b) => a - b)\<close>. The comparator puts \<open>a\<close> after \<open>b\<close> when its
  result is positive; a result of \<open>NaN\<close> counts as zero. The sort is stable.
\<close>

definition minus_compare :: "jsval \<Rightarrow> jsval \<Rightarrow> jsnum" where
  "minus_compare a b = num_sub (num_of a) (num_of b)"

definition is_positive :: "jsnum \<Rightarrow> bool" where
  "is_positive n = (case n of Fin x \<Rightarrow> 0 < dval x | PInf \<Rightarrow> True | _ \<Rightarrow> False)"

fun insert_sorted :: "('a \<Rightarrow> 'a \<Rightarrow> jsnum) \<Rightarrow> 'a \<Rightarrow> 'a list \<Rightarrow> 'a list" where
  "insert_sorted cmp x [] = [x]"
| "insert_sorted cmp x (y # ys) =
     (if is_positive (cmp x y) then y # insert_sorted cmp x ys else x # y # ys)"

definition array_sort :: "('a \<Rightarrow> 'a \<Rightarrow> jsnum) \<Rightarrow> 'a list \<Rightarrow> 'a list" where
  "array_sort cmp xs = foldr (insert_sorted cmp) xs []"

text \<open>
  The callback of \<^verbatim>\<open>numbers.forEach\<close>, on \<open>(frequency, maxFreq, mode)\<close>. The table
  \<open>frequency\<close> is an object keyed by the string of the number; two different
  numbers have different strings, none of them a property of
  \<^verbatim>\<open>Object.prototype\<close>, so the model keys the table by the number, and a missing
  entry, read as \<^verbatim>\<open>frequency[num] || 0\<close>, is \<open>0\<close>.
\<close>

definition mode_step ::
  "(jsnum \<Rightarrow> nat) \<times> nat \<times> jsnum option \<Rightarrow> jsnum \<Rightarrow> (jsnum \<Rightarrow> nat) \<times> nat \<times> jsnum option" where
  "mode_step st num =
     (case st of (frequency, maxFreq, mode) \<Rightarrow>
        let frequency' = frequency(num := frequency num + 1) in
        if frequency' num > maxFreq then (frequency', frequency' num, Some num)
        else (frequency', maxFreq, mode))"

definition mode_scan :: "jsnum list \<Rightarrow> jsnum option" where
  "mode_scan nums = snd (snd (foldl mode_step (\<lambda>_. 0, 0, None) nums))"

text \<open>
  The expressions of \<^verbatim>\<open>calculateStatistics\<close>, on the contents of the array they
  read: the filter on \<open>data\<close>, \<^verbatim>\<open>reduce((acc, val) => acc + val, 0)\<close>, and the
  values bound to \<open>mean\<close>, \<open>median\<close>, \<open>range\<close> and \<open>standardDeviation\<close>. The array
  \<open>squaredDiffs\<close> is read once and given by value.
\<close>

definition numeric_values :: "jsval list \<Rightarrow> jsval list" where
  "numeric_values vals = filter (\<lambda>val. typeof val = ''number'' \<and> \<not> isNaN (num_of val)) vals"

definition sum_of :: "jsnum list \<Rightarrow> jsnum" where
  "sum_of nums = foldl num_add (dbl 0) nums"

definition mean_of :: "jsval list \<Rightarrow> jsnum" where
  "mean_of numbers = num_div (sum_of (map num_of numbers)) (dbl (real (length numbers)))"

definition median_of :: "jsval list \<Rightarrow> jsnum" where
  "median_of sortedArr =
     (if length sortedArr mod 2 = 0
      then num_div
             (num_add (num_of (array_get sortedArr (length sortedArr div 2 - 1)))
                      (num_of (array_get sortedArr (length sortedArr div 2))))
             (dbl 2)
      else num_of (array_get sortedArr (length sortedArr div 2)))"

definition range_of :: "jsval list \<Rightarrow> jsnum" where
  "range_of sortedArr =
     num_sub (num_of (array_get sortedArr (length sortedArr - 1))) (num_of (array_get sortedArr 0))"

definition standardDeviation_of :: "engine \<Rightarrow> jsval list \<Rightarrow> jsnum \<Rightarrow> jsnum" where
  "standardDeviation_of eng numbers mean =
     (let squaredDiffs = map (\<lambda>val. mathPow eng (num_sub (num_of val) mean) (dbl 2)) numbers;
          avgSquaredDiff = num_div (sum_of squaredDiffs) (dbl (real (length numbers)))
      in mathSqrt eng avgSquaredDiff)"

text \<open>
  \<^verbatim>\<open>calculateStatistics(data)\<close>. \<open>None\<close> for \<open>dataRef\<close> is a \<^verbatim>\<open>data\<close> that is
  \<^verbatim>\<open>null\<close> or \<^verbatim>\<open>undefined\<close>. The variables \<open>numbers\<close> and \<open>sortedArr\<close> (the source's \<^verbatim>\<open>sorted\<close>) hold the same
  reference, since \<^verbatim>\<open>sort\<close> returns the array it sorted. \<^verbatim>\<open>mode.toFixed\<close> on a
  \<open>mode\<close> that is still \<^verbatim>\<open>null\<close> would throw a \<^verbatim>\<open>TypeError\<close>.
\<close>

definition calculateStatistics ::
  "engine \<Rightarrow> jsval heap \<Rightarrow> nat option \<Rightarrow> (error + statistics option) \<times> jsval heap" where
  "calculateStatistics eng h dataRef =
     (case dataRef of
        None \<Rightarrow> (Inr None, h)
      | Some d \<Rightarrow>
          if length (deref h d) = 0 then (Inr None, h)
          else
            (case alloc h (numeric_values (deref h d)) of
               (numbers, h1) \<Rightarrow>
                 if length (deref h1 numbers) = 0 then (Inr None, h1)
                 else
                   let h2 = assign h1 numbers (array_sort minus_compare (deref h1 numbers));
                       sortedArr = numbers;
                       mean = mean_of (deref h2 numbers);
                       median = median_of (deref h2 sortedArr);
                       mode = mode_scan (map num_of (deref h2 numbers));
                       range = range_of (deref h2 sortedArr);
                       standardDeviation = standardDeviation_of eng (deref h2 numbers) mean
                   in
                   (case mode of
                      None \<Rightarrow> (Inl TypeError, h2)
                    | Some m \<Rightarrow>
                        (Inr (Some \<lparr>st_mean = toFixed2 mean,
                                    st_median = toFixed2 median,
                                    st_mode = toFixed2 m,
                                    st_range = toFixed2 range,
                                    st_standardDeviation = toFixed2 standardDeviation\<rparr>),
                         h2))))"

section \<open>The chart series builder\<close>

record axis =
  ax_column :: string
  ax_label :: "string option"

text \<open>\<^verbatim>\<open>axis.label || axis.column\<close>: a missing or empty label gives the column.\<close>

definition label_or_column :: "axis \<Rightarrow> string" where
  "label_or_column ax =
     (case ax_label ax of Some l \<Rightarrow> (if l \<noteq> [] then l else ax_column ax) | None \<Rightarrow> ax_column ax)"

datatype datum = Value jsval | Point jsnum jsnum

datatype paint = Paints "string list" | Paint string

record dataset =
  ds_label :: string
  ds_data :: "datum list"
  ds_backgroundColor :: paint
  ds_borderColor :: paint
  ds_borderWidth :: nat
  ds_fill :: "bool option"
  ds_tension :: "jsnum option"

record chartData =
  cd_labels :: "jsval list"
  cd_datasets :: "dataset list"

definition colors :: "string list" where
  "colors =
     [''#FF6384'', ''#36A2EB'', ''#FFCE56'', ''#4BC0C0'', ''#9966FF'',
      ''#FF9F40'', ''#FF6384'', ''#C9CBCF'', ''#4BC0C0'', ''#FF6384'']"

text \<open>
  \<^verbatim>\<open>a + y\<close> for a number \<open>y\<close>: a string on the left, or an object, which is turned
  into its string, makes it a concatenation; otherwise it is the sum of the
  numbers (\<^verbatim>\<open>null\<close> and \<^verbatim>\<open>false\<close> count \<open>0\<close>, \<^verbatim>\<open>true\<close> counts \<open>1\<close>).
\<close>

definition js_plus :: "engine \<Rightarrow> jsval \<Rightarrow> jsnum \<Rightarrow> jsval" where
  "js_plus eng a y =
     (case a of
        JUndefined \<Rightarrow> JNum NaN
      | JNull \<Rightarrow> JNum (num_add (dbl 0) y)
      | JBool b \<Rightarrow> JNum (num_add (dbl (if b then 1 else 0)) y)
      | JNum x \<Rightarrow> JNum (num_add x y)
      | JStr s \<Rightarrow> JStr (s @ numString eng y)
      | JBuiltin name \<Rightarrow> JStr (builtinToString eng name @ numString eng y))"

text \<open>The callback of \<^verbatim>\<open>data.forEach\<close> in the pie branch, on \<open>groupedData\<close>.\<close>

definition pie_row :: "engine \<Rightarrow> axis \<Rightarrow> axis \<Rightarrow> jsobject \<Rightarrow> jsobject \<Rightarrow> jsobject" where
  "pie_row eng xAxis yAxis groupedData row =
     (let xValue = toPropertyKey eng (obj_get row (ax_column xAxis));
          yValue = or_zero (parseFloat (obj_get row (ax_column yAxis)))
      in if truthy (obj_get groupedData xValue)
         then obj_set groupedData xValue (js_plus eng (obj_get groupedData xValue) yValue)
         else obj_set groupedData xValue (JNum yValue))"

text \<open>
  \<^verbatim>\<open>processChartData(data, xAxis, yAxis, chartType)\<close>. The rows are objects of the
  array \<open>data\<close>; \<open>None\<close> is a \<^verbatim>\<open>data\<close> that is \<^verbatim>\<open>null\<close> or \<^verbatim>\<open>undefined\<close>. The error is
  thrown with the message \<^verbatim>\<open>No data available for chart generation\<close>. The arrays
  of the result are given by value.
\<close>

definition processChartData ::
  "engine \<Rightarrow> jsobject heap \<Rightarrow> nat option \<Rightarrow> axis \<Rightarrow> axis \<Rightarrow> string \<Rightarrow>
     (error + chartData) \<times> jsobject heap" where
  "processChartData eng h dataRef xAxis yAxis chartType =
     (case dataRef of
        None \<Rightarrow> (Inl EmptyDataset, h)
      | Some d \<Rightarrow>
          if length (deref h d) = 0 then (Inl EmptyDataset, h)
          else
            let ds0 = \<lparr>ds_label = label_or_column yAxis, ds_data = [],
                       ds_backgroundColor = Paints [], ds_borderColor = Paints [],
                       ds_borderWidth = 1, ds_fill = None, ds_tension = None\<rparr>
            in
            if chartType = ''pie'' then
              let groupedData = foldl (pie_row eng xAxis yAxis) empty_object (deref h d);
                  labels = object_keys groupedData
              in (Inr \<lparr>cd_labels = map JStr labels,
                       cd_datasets =
                         [ds0\<lparr>ds_data := map Value (object_values groupedData),
                              ds_backgroundColor :=
                                Paints (map (\<lambda>index. colors ! (index mod length colors))
                                          [0..<length labels])\<rparr>]\<rparr>,
                  h)
            else if chartType = ''scatter'' then
              (Inr \<lparr>cd_labels = [],
                    cd_datasets =
                      [ds0\<lparr>ds_data :=
                             map (\<lambda>row. Point (or_zero (parseFloat (obj_get row (ax_column xAxis))))
                                               (or_zero (parseFloat (obj_get row (ax_column yAxis)))))
                                 (deref h d),
                           ds_backgroundColor := Paint (colors ! 0),
                           ds_borderColor := Paint (colors ! 0)\<rparr>]\<rparr>,
               h)
            else
              (case alloc h (take 50 (deref h d)) of
                 (processedData, h1) \<Rightarrow>
                   let ds1 = ds0\<lparr>ds_data :=
                                   map (\<lambda>row. Value (JNum (or_zero (parseFloat
                                                  (obj_get row (ax_column yAxis))))))
                                       (deref h1 processedData)\<rparr>;
                       ds2 =
                         (if chartType = ''bar'' then
                            ds1\<lparr>ds_backgroundColor := Paint (colors ! 0 @ ''80''),
                                ds_borderColor := Paint (colors ! 0)\<rparr>
                          else if chartType = ''line'' \<or> chartType = ''area'' then
                            ds1\<lparr>ds_backgroundColor :=
                                  Paint (if chartType = ''area'' then colors ! 0 @ ''30''
                                         else ''transparent''),
                                ds_borderColor := Paint (colors ! 0),
                                ds_fill := Some (chartType = ''area''),
                                ds_tension := Some (dbl (4 / 10))\<rparr>
                          else ds1)
                   in (Inr \<lparr>cd_labels = map (\<lambda>row. obj_get row (ax_column xAxis))
                                           (deref h1 processedData),
                            cd_datasets = [ds2]\<rparr>,
                       h1)))"

subsection \<open>Groups of the pie chart, in the words of the specification\<close>

text \<open>
  The group key of a row (its x-value as a property key), the number read
  from a column of a row (\<^verbatim>\<open>parseFloat\<close> of the cell, \<open>0\<close> when that reads no
  number), the total of a group (its y-values added in row order, each
  addition rounded as the calculator's sums are), and the distinct elements of
  a list in the order of their first occurrence.
\<close>

definition row_key :: "engine \<Rightarrow> axis \<Rightarrow> jsobject \<Rightarrow> string" where
  "row_key eng xAxis row = toPropertyKey eng (obj_get row (ax_column xAxis))"

definition row_y :: "axis \<Rightarrow> jsobject \<Rightarrow> jsnum" where
  "row_y yAxis row =
     (if parseFloat (obj_get row (ax_column yAxis)) = NaN then dbl 0
      else parseFloat (obj_get row (ax_column yAxis)))"

text \<open>Two rows with the same x-value and the same y-value.\<close>

definition same_xy :: "axis \<Rightarrow> axis \<Rightarrow> jsobject \<Rightarrow> jsobject \<Rightarrow> bool" where
  "same_xy xAxis yAxis row row' =
     (obj_get row (ax_column xAxis) = obj_get row' (ax_column xAxis) \<and>
      row_y yAxis row = row_y yAxis row')"

definition group_total :: "engine \<Rightarrow> axis \<Rightarrow> axis \<Rightarrow> jsobject list \<Rightarrow> string \<Rightarrow> jsnum" where
  "group_total eng xAxis yAxis rows k =
     sum_of (map (row_y yAxis) (filter (\<lambda>row. row_key eng xAxis row = k) rows))"

definition first_seen :: "'a list \<Rightarrow> 'a list" where
  "first_seen xs = rev (remdups (rev xs))"

text \<open>
  The rows whose y-value \<^verbatim>\<open>parseFloat\<close> can read, and the total of a group
  taken over these rows only.
\<close>

definition readable :: "axis \<Rightarrow> jsobject \<Rightarrow> bool" where
  "readable yAxis row = (parseFloat (obj_get row (ax_column yAxis)) \<noteq> NaN)"

definition readable_total :: "engine \<Rightarrow> axis \<Rightarrow> axis \<Rightarrow> jsobject list \<Rightarrow> string \<Rightarrow> jsnum" where
  "readable_total eng xAxis yAxis rows k =
     sum_of (map (\<lambda>row. parseFloat (obj_get row (ax_column yAxis)))
               (filter (\<lambda>row. row_key eng xAxis row = k \<and> readable yAxis row) rows))"

text \<open>
  No row joins a group whose total so far is \<open>NaN\<close>. Such a total is the sum
  of \<^verbatim>\<open>Infinity\<close> and \<^verbatim>\<open>-Infinity\<close>; the test \<^verbatim>\<open>if (groupedData[xValue])\<close> takes it for a
  group that does not exist yet.
\<close>

definition sums_defined :: "engine \<Rightarrow> axis \<Rightarrow> axis \<Rightarrow> jsobject list \<Rightarrow> bool" where
  "sums_defined eng xAxis yAxis rows =
     (\<forall>n<length rows.
        group_total eng xAxis yAxis (take n rows) (row_key eng xAxis (rows ! n)) \<noteq> NaN)"

definition is_finite :: "jsnum \<Rightarrow> bool" where
  "is_finite n = (case n of Fin _ \<Rightarrow> True | _ \<Rightarrow> False)"

text \<open>
  The state of \<open>groupedData\<close> after the rows \<open>rows\<close>: its keys in the order of
  first occurrence, each with the total of its group.
\<close>

definition pie_inv :: "engine \<Rightarrow> axis \<Rightarrow> axis \<Rightarrow> jsobject list \<Rightarrow> jsobject \<Rightarrow> bool" where
  "pie_inv eng xAxis yAxis rows g =
     (hasProto g \<and> map fst (own g) = first_seen (map (row_key eng xAxis) rows) \<and>
      (\<forall>k. k \<in> set (map (row_key eng xAxis) rows) \<longrightarrow>
         map_of (own g) k = Some (JNum (group_total eng xAxis yAxis rows k))))"

subsection \<open>Mode and rounding, in the words of the specification\<close>

text \<open>
  The place of a number on the number line: below every finite number for
  \<open>-\<infinity>\<close>, above for \<open>+\<infinity>\<close>; \<open>NaN\<close>, which the calculator filters out, is put last.
\<close>

definition rank :: "jsnum \<Rightarrow> int \<times> real" where
  "rank n = (case n of NInf \<Rightarrow> (- 1, 0) | Fin r \<Rightarrow> (0, dval r) | PInf \<Rightarrow> (1, 0) | NaN \<Rightarrow> (2, 0))"

definition num_le :: "jsnum \<Rightarrow> jsnum \<Rightarrow> bool" where
  "num_le a b = (rank a \<le> rank b)"

text \<open>
  \<open>m\<close> occurs in \<open>nums\<close>, no value occurs more often, and \<open>m\<close> is the smallest of
  the values that occur as often.
\<close>

definition smallest_most_frequent :: "jsnum list \<Rightarrow> jsnum \<Rightarrow> bool" where
  "smallest_most_frequent nums m =
     (m \<in> set nums \<and>
      (\<forall>v \<in> set nums. count_list nums v \<le> count_list nums m) \<and>
      (\<forall>v \<in> set nums. count_list nums v = count_list nums m \<longrightarrow> num_le m v))"

text \<open>
  \<open>y\<close> is \<open>x\<close> rounded to two decimals, half away from zero: a multiple of
  \<open>1/100\<close> at distance at most \<open>1/200\<close> from \<open>x\<close>, and the one of larger absolute
  value when two multiples are that near.
\<close>

definition half_away_2dp :: "real \<Rightarrow> real \<Rightarrow> bool" where
  "half_away_2dp x y =
     (y * 100 \<in> \<int> \<and> \<bar>y - x\<bar> \<le> 1 / 200 \<and> (\<bar>y - x\<bar> = 1 / 200 \<longrightarrow> \<bar>x\<bar> < \<bar>y\<bar>))"

text \<open>
  \<open>out\<close> is the number for the exact value of \<open>raw\<close> rounded to two decimals,
  half away from zero. A value that is not finite has no decimals and stays
  as it is.
\<close>

definition rounded_2dp :: "jsnum \<Rightarrow> jsnum \<Rightarrow> bool" where
  "rounded_2dp raw out =
     (case raw of
        Fin x \<Rightarrow> (\<exists>y. half_away_2dp (dval x) y \<and> out = dbl y)
      | _ \<Rightarrow> out = raw)"

text \<open>The contents of the array \<open>numbers\<close> after \<^verbatim>\<open>numbers.sort((a, b) => a - b)\<close>.\<close>

definition sorted_numbers :: "jsval list \<Rightarrow> jsval list" where
  "sorted_numbers vals = array_sort minus_compare (numeric_values vals)"

text \<open>
  For the proofs: the sort key of an array element, the elements that the
  filter lets through, and the state of the scan for the mode after the
  numbers \<open>nums\<close>.
\<close>

definition val_rank :: "jsval \<Rightarrow> int \<times> real" where
  "val_rank v = rank (num_of v)"

definition plain_number :: "jsval \<Rightarrow> bool" where
  "plain_number v = (\<exists>n. v = JNum n \<and> n \<noteq> NaN)"

definition scan_ok :: "jsnum list \<Rightarrow> (jsnum \<Rightarrow> nat) \<times> nat \<times> jsnum option \<Rightarrow> bool" where
  "scan_ok nums st =
     (case st of (frequency, maxFreq, mode) \<Rightarrow>
        frequency = count_list nums \<and>
        (nums = [] \<longrightarrow> maxFreq = 0 \<and> mode = None) \<and>
        (nums \<noteq> [] \<longrightarrow>
           (\<exists>m. mode = Some m \<and> m \<in> set nums \<and> count_list nums m = maxFreq \<and>
                (\<forall>v. count_list nums v \<le> maxFreq) \<and>
                (\<forall>v. count_list nums v = maxFreq \<longrightarrow> rank m \<le> rank v))))"

section \<open>Properties of the arithmetic on doubles\<close>

lemma binade_bounds: "0 < x \<Longrightarrow> 2 powi binade x \<le> x \<and> x < 2 powi (binade x + 1)"
proof (induction x rule: binade.induct)
  case (1 x)
  show ?case
  proof (cases "2 \<le> x")
    case True
    then have b: "binade x = binade (x / 2) + 1" by (subst binade.simps) simp
    from "1.IH"(1) [OF True] "1.prems"
    have "2 powi binade (x / 2) \<le> x / 2 \<and> x / 2 < 2 powi (binade (x / 2) + 1)" by simp
    then show ?thesis unfolding b by (simp add: power_int_add)
  next
    case False
    show ?thesis
    proof (cases "x < 1")
      case True
      with False "1.prems" have b: "binade x = binade (x * 2) - 1" by (subst binade.simps) simp
      from "1.IH"(2) [OF False] True "1.prems"
      have "2 powi binade (x * 2) \<le> x * 2 \<and> x * 2 < 2 powi (binade (x * 2) + 1)" by simp
      then show ?thesis unfolding b by (simp add: power_int_add power_int_diff)
    next
      case f: False
      with False have b: "binade x = 0" by (subst binade.simps) simp
      from f False show ?thesis unfolding b by simp
    qed
  qed
qed

lemma binade_unique:
  assumes "2 powi e \<le> x" "x < 2 powi (e + 1)"
  shows "binade x = e"
proof -
  have pos: "0 < x" using assms(1) zero_less_power_int [of "2::real" e] by linarith
  from binade_bounds [OF pos] have b: "2 powi binade x \<le> x" "x < 2 powi (binade x + 1)" by simp_all
  have "(2::real) powi e < 2 powi (binade x + 1)" using assms(1) b(2) by linarith
  then have 1: "e < binade x + 1"
    by (metis power_int_increasing not_less one_le_numeral)
  have "(2::real) powi binade x < 2 powi (e + 1)" using assms(2) b(1) by linarith
  then have 2: "binade x < e + 1"
    by (metis power_int_increasing not_less one_le_numeral)
  from 1 2 show ?thesis by simp
qed

lemma nearest_even_of_int [simp]: "nearest_even (of_int k) = k"
  by (simp add: nearest_even_def)

lemma nearest_even_mono: "z \<le> w \<Longrightarrow> nearest_even z \<le> nearest_even w"
proof -
  assume zw: "z \<le> w"
  then have f: "\<lfloor>z\<rfloor> \<le> \<lfloor>w\<rfloor>" by (rule floor_mono)
  show ?thesis
  proof (cases "\<lfloor>z\<rfloor> = \<lfloor>w\<rfloor>")
    case True
    with zw show ?thesis by (auto simp: nearest_even_def)
  next
    case False
    with f have "\<lfloor>z\<rfloor> + 1 \<le> \<lfloor>w\<rfloor>" by simp
    moreover have "nearest_even z \<le> \<lfloor>z\<rfloor> + 1" by (simp add: nearest_even_def)
    moreover have "\<lfloor>w\<rfloor> \<le> nearest_even w" by (simp add: nearest_even_def)
    ultimately show ?thesis by linarith
  qed
qed

lemma quantum_pos: "0 < quantum x"
  by (simp add: quantum_def zero_less_power_int)

lemma rnd_zero [simp]: "rnd 0 = 0"
  by (simp add: rnd_def nearest_even_def)

lemma rnd_fixed: "x / quantum x \<in> \<int> \<Longrightarrow> rnd x = x"
proof -
  assume "x / quantum x \<in> \<int>"
  then obtain k :: int where k: "x / quantum x = of_int k" by (auto elim: Ints_cases)
  have "rnd x = of_int k * quantum x"
    unfolding rnd_def k by simp
  also have "\<dots> = x"
    using k quantum_pos [of x] by (simp add: field_simps)
  finally show ?thesis .
qed

lemma MIN_VALUE_pos: "0 < MIN_VALUE"
  by (simp add: MIN_VALUE_def zero_less_power_int)

lemma nearest_even_zero [simp]: "nearest_even 0 = 0"
  using nearest_even_of_int [of 0] by simp

lemma powi_Suc: "(2::real) powi (k + 1) = 2 * 2 powi k"
  by (simp add: power_int_add)

lemma quantum_exp_ge: "- 1074 \<le> max (binade \<bar>x\<bar>) (- 1022) - 52"
  by simp

lemma powi_int: "0 \<le> k \<Longrightarrow> (2::real) powi k \<in> \<int>"
proof -
  assume "0 \<le> k"
  then have "(2::real) powi k = 2 ^ nat k" by (simp add: power_int_def)
  also have "\<dots> = of_int (2 ^ nat k)" by simp
  finally show ?thesis by (metis Ints_of_int)
qed

lemma rnd_dyadic:
  assumes m: "\<bar>m\<bar> < 2 ^ 53" and e: "- 1074 \<le> e"
  shows "rnd (of_int m * 2 powi e) = of_int m * 2 powi e"
proof (cases "m = 0")
  case True
  then show ?thesis by simp
next
  case False
  let ?x = "of_int m * (2::real) powi e"
  let ?b = "binade \<bar>?x\<bar>"
  let ?q = "max ?b (- 1022) - 52"
  have pe: "0 < (2::real) powi e" by (simp add: zero_less_power_int)
  have ax: "\<bar>?x\<bar> = of_int \<bar>m\<bar> * 2 powi e"
    using pe by (simp add: abs_mult)
  from False have "1 \<le> \<bar>m\<bar>" by simp
  then have "1 \<le> real_of_int \<bar>m\<bar>" by linarith
  then have pos: "0 < \<bar>?x\<bar>" unfolding ax using pe by simp
  from m have "real_of_int \<bar>m\<bar> < 2 ^ 53"
    using of_int_less_iff [of "\<bar>m\<bar>" "2 ^ 53", where 'a = real] by simp
  then have "\<bar>?x\<bar> < 2 ^ 53 * 2 powi e"
    unfolding ax using pe by simp
  also have "\<dots> = 2 powi (53 + e)"
    by (simp add: power_int_add)
  finally have up: "\<bar>?x\<bar> < 2 powi (53 + e)" .
  from binade_bounds [OF pos] have "2 powi ?b \<le> \<bar>?x\<bar>" by simp
  with up have "(2::real) powi ?b < 2 powi (53 + e)" by linarith
  then have "?b < 53 + e"
    by (metis power_int_increasing not_less one_le_numeral)
  with e have qe: "?q \<le> e" by simp
  have "?x / quantum ?x = of_int m * 2 powi (e - ?q)"
    unfolding quantum_def by (simp add: power_int_diff)
  moreover have "(2::real) powi (e - ?q) \<in> \<int>"
    using qe by (intro powi_int) simp
  ultimately have "?x / quantum ?x \<in> \<int>"
    by simp
  then show ?thesis by (rule rnd_fixed)
qed

lemma representable_dyadic:
  assumes "\<bar>m\<bar> < 2 ^ 53" and "- 1074 \<le> e" and "\<bar>of_int m * (2::real) powi e\<bar> < 2 ^ 1024"
  shows "representable (of_int m * 2 powi e)"
  using rnd_dyadic [OF assms(1,2)] assms(3) by (simp add: representable_def)

lemma representable_of_int: "\<bar>k\<bar> < 2 ^ 53 \<Longrightarrow> representable (of_int k)"
proof -
  assume k: "\<bar>k\<bar> < 2 ^ 53"
  then have "\<bar>real_of_int k\<bar> < 2 ^ 53"
    using of_int_less_iff [of "\<bar>k\<bar>" "2 ^ 53", where 'a = real] by simp
  also have "(2::real) ^ 53 < 2 ^ 1024" by simp
  finally have "\<bar>real_of_int k * 2 powi 0\<bar> < 2 ^ 1024" by simp
  from representable_dyadic [OF k _ this] show ?thesis by simp
qed

lemma mantissa_bound: "\<bar>nearest_even (x / quantum x)\<bar> \<le> 2 ^ 53"
proof (cases "x = 0")
  case True
  then show ?thesis by simp
next
  case False
  let ?b = "binade \<bar>x\<bar>"
  let ?q = "max ?b (- 1022) - 52"
  from False have pos: "0 < \<bar>x\<bar>" by simp
  from binade_bounds [OF pos] have "\<bar>x\<bar> < 2 powi (?b + 1)" by simp
  also have "\<dots> \<le> 2 powi (?q + 53)"
    by (rule power_int_increasing) simp_all
  also have "\<dots> = 2 powi ?q * 2 powi 53"
    by (rule power_int_add) simp
  also have "\<dots> = 2 ^ 53 * quantum x"
    by (simp add: quantum_def)
  finally have "\<bar>x\<bar> / quantum x < 2 ^ 53"
    using quantum_pos [of x] by (simp add: field_simps)
  moreover have "\<bar>x / quantum x\<bar> = \<bar>x\<bar> / quantum x"
    using quantum_pos [of x] by (simp only: abs_divide abs_of_pos)
  ultimately have a: "\<bar>x / quantum x\<bar> < 2 ^ 53"
    by (simp only:)
  from a have a1: "x / quantum x < 2 ^ 53" and a2: "- (2 ^ 53) < x / quantum x"
    by (simp_all only: abs_less_iff minus_less_iff [of "2 ^ 53"])
  have "x / quantum x \<le> of_int (2 ^ 53)" using a1 by simp
  from nearest_even_mono [OF this] have hi: "nearest_even (x / quantum x) \<le> 2 ^ 53"
    by (simp only: nearest_even_of_int)
  have "of_int (- (2 ^ 53)) \<le> x / quantum x" using a2 by simp
  from nearest_even_mono [OF this] have lo: "- (2 ^ 53) \<le> nearest_even (x / quantum x)"
    by (simp only: nearest_even_of_int)
  from hi lo show ?thesis by linarith
qed

lemma rnd_rnd: "rnd (rnd x) = rnd x"
proof -
  let ?n = "nearest_even (x / quantum x)"
  let ?e = "max (binade \<bar>x\<bar>) (- 1022) - 52"
  have r: "rnd x = of_int ?n * 2 powi ?e"
    by (simp add: rnd_def quantum_def)
  have e: "- 1074 \<le> ?e" by simp
  show ?thesis
  proof (cases "\<bar>?n\<bar> < 2 ^ 53")
    case True
    from rnd_dyadic [OF True e] show ?thesis unfolding r .
  next
    case False
    with mantissa_bound [of x] have "\<bar>?n\<bar> = 2 ^ 53" by linarith
    then consider "?n = 2 ^ 53" | "?n = - (2 ^ 53)" by linarith
    then have "\<exists>m. \<bar>m\<bar> < 2 ^ 53 \<and> real_of_int ?n * 2 powi ?e = of_int m * 2 powi (?e + 1)"
    proof cases
      case 1
      show ?thesis unfolding 1 powi_Suc by (rule exI [of _ "2 ^ 52"]) simp
    next
      case 2
      show ?thesis unfolding 2 powi_Suc by (rule exI [of _ "- (2 ^ 52)"]) simp
    qed
    then obtain m :: int where m: "\<bar>m\<bar> < 2 ^ 53" "real_of_int ?n * 2 powi ?e = of_int m * 2 powi (?e + 1)"
      by blast
    have "- 1074 \<le> ?e + 1" by simp
    from rnd_dyadic [OF m(1) this] show ?thesis unfolding r m(2) .
  qed
qed

lemma representable_rnd: "\<bar>rnd x\<bar> < 2 ^ 1024 \<Longrightarrow> representable (rnd x)"
  by (simp add: representable_def rnd_rnd)

lemma rnd_multiple: "\<exists>k::int. rnd x = of_int k * MIN_VALUE"
proof -
  let ?n = "nearest_even (x / quantum x)"
  let ?e = "max (binade \<bar>x\<bar>) (- 1022) - 52"
  let ?u = MIN_VALUE
  have "(2::real) powi ?e = 2 powi ((?e + 1074) + (- 1074))"
    by simp
  also have "\<dots> = 2 powi (?e + 1074) * ?u"
    unfolding MIN_VALUE_def by (rule power_int_add) simp
  also have "(2::real) powi (?e + 1074) = of_int (2 ^ nat (?e + 1074))"
    by (simp add: power_int_def)
  finally have q: "quantum x = of_int (2 ^ nat (?e + 1074)) * ?u"
    by (simp only: quantum_def)
  have "rnd x = of_int (?n * 2 ^ nat (?e + 1074)) * ?u"
    unfolding rnd_def q by (simp only: of_int_mult mult.assoc)
  then show ?thesis by blast
qed

lemma representable_multiple: "representable x \<Longrightarrow> \<exists>k::int. x = of_int k * MIN_VALUE"
  using rnd_multiple [of x] by (simp add: representable_def)

lemma quantum_le:
  assumes "MIN_VALUE \<le> \<bar>x\<bar>"
  shows "quantum x \<le> \<bar>x\<bar>"
proof -
  have pos: "0 < \<bar>x\<bar>" using assms MIN_VALUE_pos by linarith
  let ?b = "binade \<bar>x\<bar>"
  show ?thesis
  proof (cases "- 1022 \<le> ?b")
    case True
    then have "quantum x = 2 powi (?b - 52)" by (simp add: quantum_def max_def)
    also have "\<dots> \<le> 2 powi ?b" by (rule power_int_increasing) simp_all
    also have "\<dots> \<le> \<bar>x\<bar>" using binade_bounds [OF pos] by simp
    finally show ?thesis .
  next
    case False
    then have "quantum x = MIN_VALUE" by (simp add: quantum_def max_def MIN_VALUE_def)
    with assms show ?thesis by simp
  qed
qed

lemma rnd_pos:
  assumes "MIN_VALUE \<le> x"
  shows "0 < rnd x"
proof -
  have "0 < x" using assms MIN_VALUE_pos by linarith
  with assms have "quantum x \<le> x" using quantum_le [of x] by simp
  then have "of_int 1 \<le> x / quantum x" using quantum_pos [of x] by (simp add: field_simps)
  from nearest_even_mono [OF this] have "1 \<le> nearest_even (x / quantum x)"
    by (simp only: nearest_even_of_int)
  then have "0 < real_of_int (nearest_even (x / quantum x))" by linarith
  then show ?thesis unfolding rnd_def using quantum_pos [of x] by simp
qed

lemma rnd_diff_pos:
  assumes "representable a" "representable b" "a < b"
  shows "0 < rnd (b - a)"
proof -
  from assms(1,2) obtain k l :: int where k: "a = of_int k * MIN_VALUE" and l: "b = of_int l * MIN_VALUE"
    by (blast dest: representable_multiple)
  note u = MIN_VALUE_pos
  from assms(3) have "real_of_int k < real_of_int l" unfolding k l using u by simp
  then have "1 \<le> l - k" by linarith
  then have "1 \<le> real_of_int (l - k)" by linarith
  then have "MIN_VALUE \<le> real_of_int (l - k) * MIN_VALUE"
    using u by simp
  also have "\<dots> = b - a" unfolding k l by (simp add: algebra_simps)
  finally show ?thesis by (rule rnd_pos)
qed

lemma rnd_minus: "rnd (- x) = - rnd x"
proof -
  have ne: "nearest_even (- z) = - nearest_even z" for z
  proof (cases "z \<in> \<int>")
    case True
    then obtain k :: int where "z = of_int k" by (auto elim: Ints_cases)
    then have "- z = of_int (- k)" by simp
    then show ?thesis unfolding \<open>z = of_int k\<close> by (simp only: nearest_even_of_int)
  next
    case False
    then have "z \<noteq> of_int \<lfloor>z\<rfloor>"
      by (metis Ints_of_int)
    then have f: "\<lfloor>- z\<rfloor> = - \<lfloor>z\<rfloor> - 1"
      by (simp add: floor_minus ceiling_altdef)
    show ?thesis
      unfolding nearest_even_def f by (auto simp: algebra_simps)
  qed
  show ?thesis by (simp add: rnd_def quantum_def ne)
qed

lemma representable_large_int:
  assumes "representable x" "2 ^ 52 \<le> \<bar>x\<bar>"
  shows "x \<in> \<int>"
proof -
  have pos: "0 < \<bar>x\<bar>" using assms(2) by (smt (verit) zero_less_power)
  let ?b = "binade \<bar>x\<bar>"
  have "(2::real) powi 52 \<le> \<bar>x\<bar>" using assms(2) by simp
  also have "\<bar>x\<bar> < 2 powi (?b + 1)" using binade_bounds [OF pos] by simp
  finally have "52 < ?b + 1"
    by (metis power_int_increasing not_less one_le_numeral)
  then have "0 \<le> max ?b (- 1022) - 52" by simp
  then have "quantum x \<in> \<int>" unfolding quantum_def by (rule powi_int)
  then have "rnd x \<in> \<int>" unfolding rnd_def by simp
  with assms(1) show ?thesis by (simp add: representable_def)
qed

lemma representable_dval: "representable (dval d)"
  using dval [of d] by simp

lemma dval_Dbl: "representable x \<Longrightarrow> dval (Dbl x) = x"
  by (simp add: Dbl_inverse)

lemma representable_abs: "representable x \<Longrightarrow> \<not> 2 ^ 1024 \<le> rnd x \<and> \<not> rnd x \<le> - (2 ^ 1024)"
  by (auto simp: representable_def)

lemma dbl_representable: "representable x \<Longrightarrow> dbl x = Fin (Dbl x)"
  using representable_abs [of x] by (simp add: dbl_def) (simp add: representable_def)

lemma dbl_dval [simp]: "dbl (dval d) = Fin d"
  by (simp add: dbl_representable representable_dval dval_inverse)

lemma dbl_not_NaN [simp]: "dbl x \<noteq> NaN" "NaN \<noteq> dbl x"
  by (simp_all add: dbl_def)

lemma dbl_cases:
  obtains (pinf) "2 ^ 1024 \<le> rnd x" "dbl x = PInf"
  | (ninf) "rnd x \<le> - (2 ^ 1024)" "dbl x = NInf"
  | (fin) d where "dbl x = Fin d" "dval d = rnd x" "\<bar>rnd x\<bar> < 2 ^ 1024"
proof (cases "2 ^ 1024 \<le> rnd x")
  case True
  then show ?thesis by (intro pinf) (simp_all add: dbl_def)
next
  case False
  show ?thesis
  proof (cases "rnd x \<le> - (2 ^ 1024)")
    case True
    with False show ?thesis by (intro ninf) (simp_all add: dbl_def)
  next
    case f: False
    with False have a: "\<bar>rnd x\<bar> < 2 ^ 1024" by linarith
    then have "representable (rnd x)" by (rule representable_rnd)
    then have "dval (Dbl (rnd x)) = rnd x" by (rule dval_Dbl)
    with False f a show ?thesis by (intro fin [of "Dbl (rnd x)"]) (simp_all add: dbl_def)
  qed
qed

lemma dbl_eq_iff: "representable x \<Longrightarrow> representable y \<Longrightarrow> dbl x = dbl y \<longleftrightarrow> x = y"
  by (simp add: dbl_representable Dbl_inject)

lemma dbl_finite: "representable x \<Longrightarrow> dbl x \<noteq> PInf \<and> dbl x \<noteq> NInf"
  by (simp add: dbl_representable)

lemma representable_minus: "representable x \<Longrightarrow> representable (- x)"
  by (simp add: representable_def rnd_minus)

lemma num_add_dbl:
  "representable x \<Longrightarrow> representable y \<Longrightarrow> num_add (dbl x) (dbl y) = dbl (x + y)"
  by (simp add: dbl_representable dval_Dbl)

lemma num_neg_dbl: "representable x \<Longrightarrow> num_neg (dbl x) = dbl (- x)"
  by (simp add: dbl_representable dval_Dbl num_neg_def representable_minus)

lemma num_sub_dbl:
  "representable x \<Longrightarrow> representable y \<Longrightarrow> num_sub (dbl x) (dbl y) = dbl (x - y)"
  by (simp add: num_sub_def num_neg_dbl num_add_dbl representable_minus)

lemma num_div_dbl:
  "representable x \<Longrightarrow> representable y \<Longrightarrow> y \<noteq> 0 \<Longrightarrow> num_div (dbl x) (dbl y) = dbl (x / y)"
  by (simp add: dbl_representable dval_Dbl)

lemma is_positive_dbl: "representable x \<Longrightarrow> is_positive (dbl x) \<longleftrightarrow> 0 < x"
  by (simp add: dbl_representable dval_Dbl is_positive_def)

lemma rank_dbl: "representable x \<Longrightarrow> rank (dbl x) = (0, x)"
  by (simp add: dbl_representable dval_Dbl rank_def)

lemma toFixed2_dbl:
  "representable x \<Longrightarrow> \<bar>x\<bar> < 10 ^ 21 \<Longrightarrow> toFixed2 (dbl x) = dbl (round2 x)"
  by (simp add: dbl_representable dval_Dbl toFixed2_def)

lemma representable_numeral [simp]:
  "(numeral k :: real) < 2 ^ 53 \<Longrightarrow> representable (numeral k)"
  using representable_of_int [of "numeral k"] by simp

lemma representable_neg_numeral [simp]:
  "(numeral k :: real) < 2 ^ 53 \<Longrightarrow> representable (- numeral k)"
  using representable_of_int [of "- numeral k"] by simp

lemma representable_zero [simp]: "representable 0"
  using representable_of_int [of 0] by simp

lemma representable_one [simp]: "representable 1"
  using representable_of_int [of 1] by simp

lemma num_add_zero_left [simp]: "num_add (dbl 0) y = y"
proof -
  have z: "dbl 0 = Fin (Dbl 0)" "dval (Dbl 0) = 0"
    by (simp_all add: dbl_representable dval_Dbl)
  show ?thesis by (cases y) (simp_all add: z)
qed

lemma num_add_zero_right [simp]: "num_add y (dbl 0) = y"
proof -
  have z: "dbl 0 = Fin (Dbl 0)" "dval (Dbl 0) = 0"
    by (simp_all add: dbl_representable dval_Dbl)
  show ?thesis by (cases y) (simp_all add: z)
qed

lemma num_sub_Fin: "num_sub (Fin a) (Fin b) = dbl (dval a - dval b)"
proof -
  have "representable (- dval b)" by (rule representable_minus [OF representable_dval])
  then show ?thesis
    by (simp add: num_sub_def num_neg_def dval_Dbl)
qed

lemma is_positive_minus:
  "a \<noteq> NaN \<Longrightarrow> b \<noteq> NaN \<Longrightarrow> is_positive (num_sub a b) \<longleftrightarrow> rank b < rank a"
proof (cases a; cases b)
  fix x y assume ab: "a = Fin x" "b = Fin y"
  have "is_positive (dbl (dval x - dval y)) \<longleftrightarrow> dval y < dval x"
  proof (cases "dval y < dval x")
    case True
    from rnd_diff_pos [OF representable_dval representable_dval True]
    have p: "0 < rnd (dval x - dval y)" .
    show ?thesis
      using True p by (cases "dval x - dval y" rule: dbl_cases) (simp_all add: is_positive_def)
  next
    case False
    have "rnd (dval x - dval y) \<le> 0"
    proof (cases "dval x = dval y")
      case True
      then show ?thesis by simp
    next
      case ne: False
      with False have "dval x < dval y" by simp
      from rnd_diff_pos [OF representable_dval representable_dval this]
      have "0 < rnd (dval y - dval x)" .
      moreover have "rnd (dval x - dval y) = - rnd (dval y - dval x)"
        using rnd_minus [of "dval y - dval x"] by simp
      ultimately show ?thesis by simp
    qed
    with False show ?thesis
      by (cases "dval x - dval y" rule: dbl_cases) (simp_all add: is_positive_def)
  qed
  then show ?thesis by (simp add: ab num_sub_Fin rank_def)
qed (simp_all add: num_sub_def num_neg_def is_positive_def rank_def dbl_def split: if_splits)

lemma nearest_even_numeral [simp]: "nearest_even (numeral k) = numeral k"
  using nearest_even_of_int [of "numeral k"] by simp


lemma dbl_rnd: "dbl (rnd x) = dbl x"
  by (simp add: dbl_def rnd_rnd)

lemma rnd_eval:
  assumes "2 powi e \<le> \<bar>x\<bar>" "\<bar>x\<bar> < 2 powi (e + 1)" "- 1022 \<le> e"
  shows "rnd x = of_int (nearest_even (x / 2 powi (e - 52))) * 2 powi (e - 52)"
proof -
  from binade_unique [OF assms(1,2)] assms(3) have "quantum x = 2 powi (e - 52)"
    by (simp add: quantum_def max_def)
  then show ?thesis by (simp add: rnd_def)
qed

lemma rnd_eval_subnormal:
  assumes "\<bar>x\<bar> < 2 powi (- 1022)"
  shows "rnd x = of_int (nearest_even (x / MIN_VALUE)) * MIN_VALUE"
proof (cases "x = 0")
  case True
  then show ?thesis by simp
next
  case False
  then have "0 < \<bar>x\<bar>" by simp
  from binade_bounds [OF this] assms have "(2::real) powi binade \<bar>x\<bar> < 2 powi (- 1022)"
    by linarith
  then have "binade \<bar>x\<bar> < - 1022"
    by (metis power_int_increasing not_less one_le_numeral)
  then have "quantum x = MIN_VALUE"
    by (simp add: quantum_def max_def MIN_VALUE_def)
  then show ?thesis by (simp add: rnd_def)
qed

text \<open>
  The finite doubles of the model are the numbers \<open>m \<cdot> 2\<^sup>e\<close> of IEEE 754 (an
  exponent above \<open>971\<close> is covered by the bound: it moves into \<open>m\<close>).
\<close>

lemma representable_iff:
  "representable x \<longleftrightarrow>
     \<bar>x\<bar> < 2 ^ 1024 \<and> (\<exists>m e. \<bar>m\<bar> < 2 ^ 53 \<and> - 1074 \<le> e \<and> x = of_int m * 2 powi e)"
proof
  assume r: "representable x"
  let ?n = "nearest_even (x / quantum x)"
  let ?e = "max (binade \<bar>x\<bar>) (- 1022) - 52"
  from r have x: "x = of_int ?n * 2 powi ?e" and b: "\<bar>x\<bar> < 2 ^ 1024"
    by (simp_all add: representable_def rnd_def quantum_def)
  have "\<exists>m e. \<bar>m\<bar> < 2 ^ 53 \<and> - 1074 \<le> e \<and> real_of_int ?n * 2 powi ?e = of_int m * 2 powi e"
  proof (cases "\<bar>?n\<bar> < 2 ^ 53")
    case True
    moreover have "- 1074 \<le> ?e" by simp
    ultimately have "\<bar>?n\<bar> < 2 ^ 53 \<and> - 1074 \<le> ?e \<and>
        real_of_int ?n * 2 powi ?e = of_int ?n * 2 powi ?e"
      by (intro conjI refl)
    then show ?thesis by blast
  next
    case False
    with mantissa_bound [of x] have "\<bar>?n\<bar> = 2 ^ 53" by linarith
    then consider "?n = 2 ^ 53" | "?n = - (2 ^ 53)" by linarith
    then show ?thesis
    proof cases
      case 1
      have "\<bar>2 ^ 52 :: int\<bar> < 2 ^ 53" "- 1074 \<le> ?e + 1"
        "real_of_int (2 ^ 53) * 2 powi ?e = of_int (2 ^ 52) * 2 powi (?e + 1)"
        unfolding powi_Suc by simp_all
      then have "\<bar>2 ^ 52 :: int\<bar> < 2 ^ 53 \<and> - 1074 \<le> ?e + 1 \<and>
        real_of_int (2 ^ 53) * 2 powi ?e = of_int (2 ^ 52) * 2 powi (?e + 1)"
        by (intro conjI)
      then show ?thesis unfolding 1 by blast
    next
      case 2
      have "\<bar>- (2 ^ 52) :: int\<bar> < 2 ^ 53" "- 1074 \<le> ?e + 1"
        "real_of_int (- (2 ^ 53)) * 2 powi ?e = of_int (- (2 ^ 52)) * 2 powi (?e + 1)"
        unfolding powi_Suc by simp_all
      then have "\<bar>- (2 ^ 52) :: int\<bar> < 2 ^ 53 \<and> - 1074 \<le> ?e + 1 \<and>
        real_of_int (- (2 ^ 53)) * 2 powi ?e = of_int (- (2 ^ 52)) * 2 powi (?e + 1)"
        by (intro conjI)
      then show ?thesis unfolding 2 by blast
    qed
  qed
  then have "\<exists>m e. \<bar>m\<bar> < 2 ^ 53 \<and> - 1074 \<le> e \<and> x = of_int m * 2 powi e"
    by (subst x)
  with b show "\<bar>x\<bar> < 2 ^ 1024 \<and> (\<exists>m e. \<bar>m\<bar> < 2 ^ 53 \<and> - 1074 \<le> e \<and> x = of_int m * 2 powi e)"
    by (intro conjI)
next
  assume "\<bar>x\<bar> < 2 ^ 1024 \<and> (\<exists>m e. \<bar>m\<bar> < 2 ^ 53 \<and> - 1074 \<le> e \<and> x = of_int m * 2 powi e)"
  then obtain m e :: int where "\<bar>x\<bar> < 2 ^ 1024" "\<bar>m\<bar> < 2 ^ 53" "- 1074 \<le> e"
    "x = of_int m * 2 powi e"
    by (elim exE conjE)
  with representable_dyadic [of m e] show "representable x"
    by (simp only:)
qed

text \<open>
  Rounding overflows from \<open>2\<^sup>1\<^sup>0\<^sup>2\<^sup>4\<close> on and gives zero below half of the
  smallest positive double.
\<close>

lemma rnd_ge_binade:
  assumes "0 < x" "- 1022 \<le> binade x"
  shows "2 powi binade x \<le> rnd x"
proof -
  let ?b = "binade x"
  from assms have ax: "\<bar>x\<bar> = x" by simp
  have q: "quantum x = 2 powi (?b - 52)"
    using assms(2) by (simp add: quantum_def ax max_def)
  have qp: "0 < quantum x" by (rule quantum_pos)
  have "(2::real) powi ((?b - 52) + 52) = 2 powi (?b - 52) * 2 powi 52"
    by (rule power_int_add) simp
  then have s: "(2::real) powi ?b = 2 ^ 52 * quantum x"
    by (simp add: q)
  from binade_bounds [OF assms(1)] have "2 ^ 52 * quantum x \<le> x"
    unfolding s [symmetric] by simp
  then have "of_int (2 ^ 52) \<le> x / quantum x"
    using qp by (simp add: field_simps)
  from nearest_even_mono [OF this] have "2 ^ 52 \<le> nearest_even (x / quantum x)"
    by (simp only: nearest_even_of_int)
  then have "real_of_int (2 ^ 52) \<le> real_of_int (nearest_even (x / quantum x))"
    by (simp only: of_int_le_iff)
  then have "2 ^ 52 * quantum x \<le> real_of_int (nearest_even (x / quantum x)) * quantum x"
    using qp by simp
  then show ?thesis
    unfolding s rnd_def .
qed

lemma dbl_overflow:
  assumes "2 ^ 1024 \<le> x"
  shows "dbl x = PInf"
proof -
  from assms have pos: "0 < x" by (smt (verit) zero_less_power)
  from binade_bounds [OF pos] assms have "(2::real) powi 1024 < 2 powi (binade x + 1)"
    by simp
  then have "1024 < binade x + 1"
    by (metis power_int_increasing not_less one_le_numeral)
  then have b: "1024 \<le> binade x" by simp
  then have "(2::real) powi 1024 \<le> 2 powi binade x"
    by (intro power_int_increasing) simp_all
  also have "\<dots> \<le> rnd x"
    using b by (intro rnd_ge_binade [OF pos]) simp
  finally have "2 ^ 1024 \<le> rnd x" by simp
  then show ?thesis by (simp add: dbl_def)
qed

lemma nearest_even_small: "\<bar>z\<bar> < 1 / 2 \<Longrightarrow> nearest_even z = 0"
proof -
  assume z: "\<bar>z\<bar> < 1 / 2"
  show ?thesis
  proof (cases "0 \<le> z")
    case True
    with z have "\<lfloor>z\<rfloor> = 0" by (simp add: floor_eq_iff)
    with z True show ?thesis by (simp add: nearest_even_def)
  next
    case False
    with z have "\<lfloor>z\<rfloor> = - 1" by (simp add: floor_eq_iff)
    with z False show ?thesis by (simp add: nearest_even_def)
  qed
qed

lemma dbl_underflow:
  assumes "\<bar>x\<bar> < MIN_VALUE / 2"
  shows "dbl x = dbl 0"
proof -
  have "MIN_VALUE / 2 < 2 powi (- 1022)"
    by (simp add: MIN_VALUE_def)
  with assms have "\<bar>x\<bar> < 2 powi (- 1022)" by linarith
  then have r: "rnd x = of_int (nearest_even (x / MIN_VALUE)) * MIN_VALUE"
    by (rule rnd_eval_subnormal)
  have "\<bar>x / MIN_VALUE\<bar> = \<bar>x\<bar> / MIN_VALUE"
    using MIN_VALUE_pos by (simp only: abs_divide abs_of_pos)
  also have "\<dots> < 1 / 2"
    using assms MIN_VALUE_pos by (simp add: field_simps)
  finally have "nearest_even (x / MIN_VALUE) = 0"
    by (rule nearest_even_small)
  with r have "rnd x = 0" by simp
  with dbl_rnd [of x] show ?thesis by simp
qed

subsection \<open>The arithmetic at some known values\<close>

text \<open>
  The doubles nearest to \<open>0.1\<close>, \<open>0.2\<close> and \<open>0.3\<close>, and the sum
  \<^verbatim>\<open>0.1 + 0.2\<close>, which is \<^verbatim>\<open>0.30000000000000004\<close> and not the double of \<open>0.3\<close>.
\<close>

lemma rnd_tenth: "rnd (1 / 10) = 7205759403792794 / 2 ^ 56"
  by (subst rnd_eval [of "- 4"]) (simp_all add: nearest_even_def)

lemma rnd_fifth: "rnd (1 / 5) = 7205759403792794 / 2 ^ 55"
  by (subst rnd_eval [of "- 3"]) (simp_all add: nearest_even_def)

lemma rnd_three_tenths: "rnd (3 / 10) = 5404319552844595 / 2 ^ 54"
  by (subst rnd_eval [of "- 2"]) (simp_all add: nearest_even_def)

lemma rnd_sum: "rnd (7205759403792794 / 2 ^ 56 + 7205759403792794 / 2 ^ 55) = 5404319552844596 / 2 ^ 54"
  by (subst rnd_eval [of "- 2"]) (simp_all add: nearest_even_def)

lemma tenth_plus_fifth:
  "num_add (dbl (1 / 10)) (dbl (1 / 5)) = dbl (5404319552844596 / 2 ^ 54)"
  "dbl (3 / 10) = dbl (5404319552844595 / 2 ^ 54)"
  "num_add (dbl (1 / 10)) (dbl (1 / 5)) \<noteq> dbl (3 / 10)"
proof -
  have r: "representable (7205759403792794 / 2 ^ 56)" "representable (7205759403792794 / 2 ^ 55)"
    "representable (5404319552844596 / 2 ^ 54)" "representable (5404319552844595 / 2 ^ 54)"
    using representable_dyadic [of 7205759403792794 "- 56"]
      representable_dyadic [of 7205759403792794 "- 55"]
      representable_dyadic [of 5404319552844596 "- 54"]
      representable_dyadic [of 5404319552844595 "- 54"]
    by simp_all
  have a: "dbl (1 / 10) = dbl (7205759403792794 / 2 ^ 56)"
    using dbl_rnd [of "1 / 10"] by (simp only: rnd_tenth)
  have b: "dbl (1 / 5) = dbl (7205759403792794 / 2 ^ 55)"
    using dbl_rnd [of "1 / 5"] by (simp only: rnd_fifth)
  have "num_add (dbl (1 / 10)) (dbl (1 / 5)) =
          dbl (7205759403792794 / 2 ^ 56 + 7205759403792794 / 2 ^ 55)"
    unfolding a b by (rule num_add_dbl [OF r(1,2)])
  also have "\<dots> = dbl (5404319552844596 / 2 ^ 54)"
    using dbl_rnd [of "7205759403792794 / 2 ^ 56 + 7205759403792794 / 2 ^ 55"]
    by (simp only: rnd_sum)
  finally show s: "num_add (dbl (1 / 10)) (dbl (1 / 5)) = dbl (5404319552844596 / 2 ^ 54)" .
  show t: "dbl (3 / 10) = dbl (5404319552844595 / 2 ^ 54)"
    using dbl_rnd [of "3 / 10"] by (simp only: rnd_three_tenths)
  show "num_add (dbl (1 / 10)) (dbl (1 / 5)) \<noteq> dbl (3 / 10)"
    unfolding s t using dbl_eq_iff [OF r(3,4)] by simp
qed

text \<open>A literal beyond the range of the doubles reads as \<^verbatim>\<open>Infinity\<close> or as \<open>0\<close>.\<close>

lemma parseFloat_range:
  "parseFloat (JStr ''1e400'') = PInf" "parseFloat (JStr ''1e-400'') = dbl 0"
proof -
  have p: "parseFloat (JStr ''1e400'') = dbl (10 ^ 400)" "parseFloat (JStr ''1e-400'') = dbl (1 / 10 ^ 400)"
    by (simp_all add: parseFloat_def parse_decimal_def unsigned_literal_def is_ws_def is_digit_def
        digits_val_def digit_val_def scale10_def exponent_part_def exponent_digits_def)
  show "parseFloat (JStr ''1e400'') = PInf"
    unfolding p by (rule dbl_overflow) simp
  show "parseFloat (JStr ''1e-400'') = dbl 0"
    unfolding p by (rule dbl_underflow) (simp add: MIN_VALUE_def)
qed

section \<open>Properties of the column type inferencer\<close>

lemma examine_counts:
  "examine eng (nc, dc) v =
     (nc + (if is_number_evidence eng v then 1 else 0), dc + (if is_date_evidence eng v then 1 else 0))"
  by (cases v) (auto simp: examine_def is_number_evidence_def is_date_evidence_def isNaN_def parseFloat_def parse_decimal_def)

lemma foldl_examine:
  "foldl (examine eng) (nc, dc) vs =
     (nc + length (filter (is_number_evidence eng) vs), dc + length (filter (is_date_evidence eng) vs))"
  by (induction vs arbitrary: nc dc) (simp_all add: examine_counts)

lemma analyzeColumnType_counts:
  "analyzeColumnType eng vals =
     (if vals = [] then ''string''
      else if numberEvidence eng vals > dateEvidence eng vals \<and> numberEvidence eng vals > 0 then ''number''
      else if dateEvidence eng vals > 0 then ''date'' else ''string'')"
  by (simp add: analyzeColumnType_def foldl_examine numberEvidence_def dateEvidence_def)

lemma dash_here_iff: "dash_date_here s \<longleftrightarrow> yyyy_mm_dd (take 10 s)"
  by (induction s rule: dash_date_here.induct) (auto simp: yyyy_mm_dd_def)

lemma slash_here_iff: "slash_date_here s \<longleftrightarrow> dd_mm_yyyy (take 10 s)"
  by (induction s rule: slash_date_here.induct) (auto simp: dd_mm_yyyy_def)

lemma ex_less_Suc_split: "(\<exists>i<Suc n. P i) \<longleftrightarrow> P 0 \<or> (\<exists>i<n. P (Suc i))"
  by (metis less_Suc_eq_0_disj)

lemma date_pattern_match_iff: "date_pattern_match s \<longleftrightarrow> has_date_shape s"
proof (induction s)
  case Nil
  show ?case by (simp add: has_date_shape_def)
next
  case (Cons c cs)
  have "has_date_shape (c # cs) \<longleftrightarrow>
          (yyyy_mm_dd (take 10 (c # cs)) \<or> dd_mm_yyyy (take 10 (c # cs))) \<or> has_date_shape cs"
    unfolding has_date_shape_def length_Cons ex_less_Suc_split by simp
  with Cons show ?case
    by (simp only: date_pattern_match.simps dash_here_iff slash_here_iff) blast
qed

text \<open>
  Claim C3. For every sequence of values, \<open>analyzeColumnType\<close> returns
  \<^verbatim>\<open>number\<close> exactly when the count of number evidence among the first ten
  values is greater than the count of date evidence and greater than zero;
  otherwise it returns \<^verbatim>\<open>date\<close> exactly when the count of date evidence is
  greater than zero; otherwise it returns \<^verbatim>\<open>string\<close>; and on the empty sequence
  it returns \<^verbatim>\<open>string\<close>.
\<close>

theorem analyzeColumnType_decision:
  "(analyzeColumnType eng vals = ''number'' \<longleftrightarrow>
      numberEvidence eng vals > dateEvidence eng vals \<and> numberEvidence eng vals > 0) \<and>
   (\<not> (numberEvidence eng vals > dateEvidence eng vals \<and> numberEvidence eng vals > 0) \<longrightarrow>
      (analyzeColumnType eng vals = ''date'' \<longleftrightarrow> dateEvidence eng vals > 0)) \<and>
   (\<not> (numberEvidence eng vals > dateEvidence eng vals \<and> numberEvidence eng vals > 0) \<and>
    \<not> dateEvidence eng vals > 0 \<longrightarrow> analyzeColumnType eng vals = ''string'') \<and>
   analyzeColumnType eng [] = ''string''"
proof -
  have empty: "numberEvidence eng [] = 0" "dateEvidence eng [] = 0"
    by (simp_all add: numberEvidence_def dateEvidence_def)
  show ?thesis
  proof (cases "vals = []")
    case True
    then show ?thesis by (simp add: analyzeColumnType_counts empty)
  next
    case False
    then show ?thesis by (simp add: analyzeColumnType_counts)
  qed
qed

theorem analyzeColumnType_decision_witness:
  "analyzeColumnType eng0 [JNum (dbl 1), JNum (dbl 2), JNum (dbl 3)] = ''number'' \<and>
   analyzeColumnType eng0 [JStr ''2023-01-01'', JNum (dbl 7)] = ''date'' \<and>
   analyzeColumnType eng0 [JStr ''a'', JStr ''b''] = ''string''"
proof -
  have n1: "numberEvidence eng0 [JNum (dbl 1), JNum (dbl 2), JNum (dbl 3)] = 3"
    and d1: "dateEvidence eng0 [JNum (dbl 1), JNum (dbl 2), JNum (dbl 3)] = 0"
    and n2: "numberEvidence eng0 [JStr ''2023-01-01'', JNum (dbl 7)] = 1"
    and d2: "dateEvidence eng0 [JStr ''2023-01-01'', JNum (dbl 7)] = 1"
    and n3: "numberEvidence eng0 [JStr ''a'', JStr ''b''] = 0"
    and d3: "dateEvidence eng0 [JStr ''a'', JStr ''b''] = 0"
    by (simp_all add: numberEvidence_def dateEvidence_def is_number_evidence_def
        is_date_evidence_def eng0_def is_digit_def parseFloat_def parse_decimal_def
        unsigned_literal_def is_ws_def)
  show ?thesis
    using analyzeColumnType_decision [of eng0 "[JNum (dbl 1), JNum (dbl 2), JNum (dbl 3)]"]
      analyzeColumnType_decision [of eng0 "[JStr ''2023-01-01'', JNum (dbl 7)]"]
      analyzeColumnType_decision [of eng0 "[JStr ''a'', JStr ''b'']"]
    unfolding n1 d1 n2 d2 n3 d3 by simp
qed

text \<open>
  Claim C4. A text value is counted as date evidence if and only if it
  contains a substring of the shape \<^verbatim>\<open>dddd-dd-dd\<close> or \<^verbatim>\<open>dd/dd/dddd\<close> and parses to
  a valid date; a text value that is not date evidence is counted as number
  evidence if and only if \<^verbatim>\<open>parseFloat\<close> reads a number from it; any other text
  leaves both counters as they are.
\<close>

theorem text_evidence:
  "(examine eng (nc, dc) (JStr s) = (nc, dc + 1) \<longleftrightarrow> has_date_shape s \<and> dateParses eng s) \<and>
   (\<not> (has_date_shape s \<and> dateParses eng s) \<longrightarrow>
      (examine eng (nc, dc) (JStr s) = (nc + 1, dc) \<longleftrightarrow> parseFloat (JStr s) \<noteq> NaN)) \<and>
   (examine eng (nc, dc) (JStr s) \<noteq> (nc, dc + 1) \<and> examine eng (nc, dc) (JStr s) \<noteq> (nc + 1, dc) \<longrightarrow>
      examine eng (nc, dc) (JStr s) = (nc, dc))"
proof -
  have empty: "\<not> has_date_shape []" "parseFloat (JStr []) = NaN"
    by (simp_all add: has_date_shape_def parseFloat_def parse_decimal_def)
  show ?thesis
    by (cases "s = []")
       (auto simp: examine_def isNaN_def date_pattern_match_iff empty)
qed

theorem text_evidence_witness:
  "examine eng0 (0, 0) (JStr ''2023-01-01'') = (0, 1) \<and>
   examine eng0 (0, 0) (JStr ''12.5kg'') = (1, 0) \<and>
   examine eng0 (0, 0) (JStr ''kg'') = (0, 0)"
proof -
  have s1: "has_date_shape ''2023-01-01''" and s2: "\<not> has_date_shape ''12.5kg''"
    and s3: "\<not> has_date_shape ''kg''"
    by (simp_all add: date_pattern_match_iff [symmetric] is_digit_def)
  have p2: "parseFloat (JStr ''12.5kg'') = dbl (25 / 2)"
    by (simp add: parseFloat_def parse_decimal_def unsigned_literal_def is_ws_def is_digit_def
        digits_val_def digit_val_def scale10_def exponent_part_def)
  have p3: "parseFloat (JStr ''kg'') = NaN"
    by (simp add: parseFloat_def parse_decimal_def unsigned_literal_def is_ws_def is_digit_def)
  have e: "dateParses eng0 ''2023-01-01''"
    by (simp add: eng0_def)
  show ?thesis
    using text_evidence [of eng0 0 0 "''2023-01-01''"] text_evidence [of eng0 0 0 "''12.5kg''"]
      text_evidence [of eng0 0 0 "''kg''"] s1 s2 s3 p2 p3 e
    by simp
qed

lemma skipped_no_evidence:
  "skipped v \<Longrightarrow> \<not> is_number_evidence eng v \<and> \<not> is_date_evidence eng v"
  by (auto simp: skipped_def is_number_evidence_def is_date_evidence_def parseFloat_def
      parse_decimal_def)

lemma filter_length_related:
  "list_all2 R xs ys \<Longrightarrow> (\<And>a b. R a b \<Longrightarrow> P a = P b) \<Longrightarrow>
     length (filter P xs) = length (filter P ys)"
  by (induction rule: list_all2_induct) auto

text \<open>
  Claim C10. The empty string is passed over like \<^verbatim>\<open>null\<close> and \<^verbatim>\<open>undefined\<close>:
  replacing, position by position, passed-over values by passed-over values
  does not change the inferred type, so an empty string still takes one of
  the ten examined positions; and a non-empty column whose first ten values
  are all empty strings has type \<^verbatim>\<open>string\<close>. The ingestor removes \<^verbatim>\<open>null\<close> and
  \<^verbatim>\<open>undefined\<close> from a column before the inference and keeps the empty strings,
  as the evaluation of a sheet shows.
\<close>

theorem empty_string_skipped:
  "(list_all2 (\<lambda>a b. a = b \<or> skipped a \<and> skipped b) vals vals' \<longrightarrow>
      analyzeColumnType eng vals = analyzeColumnType eng vals') \<and>
   (vals \<noteq> [] \<and> list_all (\<lambda>v. v = JStr []) (take 10 vals) \<longrightarrow>
      analyzeColumnType eng vals = ''string'')"
proof (intro conjI impI)
  assume rel: "list_all2 (\<lambda>a b. a = b \<or> skipped a \<and> skipped b) vals vals'"
  then have len: "length vals = length vals'"
    by (rule list_all2_lengthD)
  from rel have rel10: "list_all2 (\<lambda>a b. a = b \<or> skipped a \<and> skipped b) (take 10 vals) (take 10 vals')"
    by (rule list_all2_takeI)
  have n: "numberEvidence eng vals = numberEvidence eng vals'"
    unfolding numberEvidence_def
    by (rule filter_length_related [OF rel10]) (auto dest: skipped_no_evidence)
  have d: "dateEvidence eng vals = dateEvidence eng vals'"
    unfolding dateEvidence_def
    by (rule filter_length_related [OF rel10]) (auto dest: skipped_no_evidence)
  from len have "vals = [] \<longleftrightarrow> vals' = []" by auto
  then show "analyzeColumnType eng vals = analyzeColumnType eng vals'"
    by (simp add: analyzeColumnType_counts n d)
next
  assume a: "vals \<noteq> [] \<and> list_all (\<lambda>v. v = JStr []) (take 10 vals)"
  then have "\<forall>v \<in> set (take 10 vals). skipped v"
    by (simp add: list_all_iff skipped_def)
  then have "filter (is_number_evidence eng) (take 10 vals) = []"
    and "filter (is_date_evidence eng) (take 10 vals) = []"
    by (auto simp: filter_empty_conv dest: skipped_no_evidence)
  then show "analyzeColumnType eng vals = ''string''"
    by (simp add: analyzeColumnType_counts numberEvidence_def dateEvidence_def)
qed

theorem empty_string_skipped_witness:
  "analyzeColumnType eng0 [JStr [], JNum (dbl 4), JStr ''x''] =
     analyzeColumnType eng0 [JNull, JNum (dbl 4), JStr ''x''] \<and>
   analyzeColumnType eng0
     (replicate 10 (JStr []) @ [JNum (dbl 1), JNum (dbl 2)]) = ''string'' \<and>
   map_sum id (\<lambda>r. map col_type (res_columns r))
     (processExcelFile eng0
        ([JStr ''a''] # replicate 10 [JStr []] @ [[JNum (dbl 1)], [JNum (dbl 2)]])) =
     Inr [''string'']"
proof -
  have r: "list_all2 (\<lambda>a b. a = b \<or> skipped a \<and> skipped b)
             [JStr [], JNum (dbl 4), JStr ''x''] [JNull, JNum (dbl 4), JStr ''x'']"
    by (simp add: skipped_def)
  have t: "replicate 10 (JStr []) @ [JNum (dbl 1), JNum (dbl 2)] \<noteq> [] \<and>
           list_all (\<lambda>v. v = JStr []) (take 10 (replicate 10 (JStr []) @ [JNum (dbl 1), JNum (dbl 2)]))"
    by (simp add: list_all_iff)
  have a: "analyzeColumnType eng0 [JStr [], JNum (dbl 4), JStr ''x''] =
           analyzeColumnType eng0 [JNull, JNum (dbl 4), JStr ''x'']"
    by (rule mp [OF empty_string_skipped [THEN conjunct1] r])
  have b: "analyzeColumnType eng0 (replicate 10 (JStr []) @ [JNum (dbl 1), JNum (dbl 2)]) = ''string''"
    by (rule mp [OF empty_string_skipped [THEN conjunct2] t])
  have c: "map_sum id (\<lambda>r. map col_type (res_columns r))
             (processExcelFile eng0
                ([JStr ''a''] # replicate 10 [JStr []] @ [[JNum (dbl 1)], [JNum (dbl 2)]])) =
           Inr [''string'']"
    using b
    by (simp add: processExcelFile_def Let_def row_object_def obj_set_def obj_get_def
        empty_object_def toPropertyKey_def array_get_def)
  from a b c show ?thesis
    by (intro conjI)
qed

section \<open>Properties of the chart series builder and of the store\<close>


lemma or_zero_alt: "or_zero n = (if n = NaN then dbl 0 else n)"
  by (auto simp: or_zero_def truthy_def)

lemma or_zero_row_y: "or_zero (parseFloat (obj_get row (ax_column yAxis))) = row_y yAxis row"
  by (auto simp: or_zero_def truthy_def row_y_def)

lemma pie_row_unfold:
  "pie_row eng xAxis yAxis g row =
     (if truthy (obj_get g (row_key eng xAxis row))
      then obj_set g (row_key eng xAxis row)
             (js_plus eng (obj_get g (row_key eng xAxis row)) (row_y yAxis row))
      else obj_set g (row_key eng xAxis row) (JNum (row_y yAxis row)))"
  by (simp add: pie_row_def Let_def or_zero_row_y row_key_def)

lemma deref_alloc: "deref (h @ [xs]) (length h) = xs"
  by (simp add: deref_def)

lemma min_fifty: "50 < n \<Longrightarrow> min n (50::nat) = 50" "n \<le> 50 \<Longrightarrow> min n (50::nat) = n"
  by simp_all

lemma processChartData_series:
  assumes ct: "chartType \<noteq> ''pie''" "chartType \<noteq> ''scatter''" and ne: "deref h d \<noteq> []"
  shows "\<exists>cd h'. processChartData eng h (Some d) xAxis yAxis chartType = (Inr cd, h') \<and>
           cd_labels cd = map (\<lambda>row. obj_get row (ax_column xAxis)) (take 50 (deref h d)) \<and>
           map ds_data (cd_datasets cd) =
             [map (\<lambda>row. Value (JNum (if parseFloat (obj_get row (ax_column yAxis)) = NaN then dbl 0
                                          else parseFloat (obj_get row (ax_column yAxis)))))
                  (take 50 (deref h d))] \<and>
           (50 < length (deref h d) \<longrightarrow>
              length (cd_labels cd) = 50 \<and> map (length \<circ> ds_data) (cd_datasets cd) = [50]) \<and>
           (length (deref h d) \<le> 50 \<longrightarrow>
              cd_labels cd = map (\<lambda>row. obj_get row (ax_column xAxis)) (deref h d) \<and>
              map (length \<circ> ds_data) (cd_datasets cd) = [length (deref h d)])"
  using ct ne
  by (simp add: processChartData_def alloc_def deref_alloc Let_def or_zero_alt min_fifty)

text \<open>
  Claim C6. For the chart types \<^verbatim>\<open>bar\<close>, \<^verbatim>\<open>line\<close> and \<^verbatim>\<open>area\<close> and a non-empty
  row list, the builder returns a chart with one label (the raw x-value) and
  one value (the y-value read by \<^verbatim>\<open>parseFloat\<close>, \<open>0\<close> when it reads no number)
  for each of the first 50 rows, in row order: exactly 50 of each when there
  are more than 50 rows, and one for every row when there are at most 50.
\<close>

theorem bar_line_area_first_fifty:
  assumes "chartType = ''bar'' \<or> chartType = ''line'' \<or> chartType = ''area''"
    and "deref h d \<noteq> []"
  shows "\<exists>cd h'. processChartData eng h (Some d) xAxis yAxis chartType = (Inr cd, h') \<and>
           cd_labels cd = map (\<lambda>row. obj_get row (ax_column xAxis)) (take 50 (deref h d)) \<and>
           map ds_data (cd_datasets cd) =
             [map (\<lambda>row. Value (JNum (if parseFloat (obj_get row (ax_column yAxis)) = NaN then dbl 0
                                          else parseFloat (obj_get row (ax_column yAxis)))))
                  (take 50 (deref h d))] \<and>
           (50 < length (deref h d) \<longrightarrow>
              length (cd_labels cd) = 50 \<and> map (length \<circ> ds_data) (cd_datasets cd) = [50]) \<and>
           (length (deref h d) \<le> 50 \<longrightarrow>
              cd_labels cd = map (\<lambda>row. obj_get row (ax_column xAxis)) (deref h d) \<and>
              map (length \<circ> ds_data) (cd_datasets cd) = [length (deref h d)])"
proof -
  from assms(1) have ct: "chartType \<noteq> ''pie''" "chartType \<noteq> ''scatter''" by auto
  show ?thesis
    by (rule processChartData_series [OF ct assms(2)])
qed

theorem bar_line_area_first_fifty_witness:
  "\<exists>cd h'. processChartData eng0
              [replicate 60 \<lparr>own = [(''c'', JStr ''A''), (''v'', JStr ''7'')], hasProto = True\<rparr>]
              (Some 0) \<lparr>ax_column = ''c'', ax_label = None\<rparr> \<lparr>ax_column = ''v'', ax_label = None\<rparr>
              ''bar'' = (Inr cd, h') \<and>
            cd_labels cd = replicate 50 (JStr ''A'') \<and>
            map ds_data (cd_datasets cd) = [replicate 50 (Value (JNum (dbl 7)))]"
proof -
  have p: "parseFloat (JStr ''7'') = dbl 7"
    by (simp add: parseFloat_def parse_decimal_def unsigned_literal_def is_ws_def is_digit_def
        digits_val_def digit_val_def scale10_def exponent_part_def)
  show ?thesis
    using bar_line_area_first_fifty [of "''bar''"
        "[replicate 60 \<lparr>own = [(''c'', JStr ''A''), (''v'', JStr ''7'')], hasProto = True\<rparr>]" 0
        eng0 "\<lparr>ax_column = ''c'', ax_label = None\<rparr>" "\<lparr>ax_column = ''v'', ax_label = None\<rparr>"]
    by (auto simp: deref_def obj_get_def p)
qed

lemma processChartData_empty:
  "deref h d = [] \<Longrightarrow> processChartData eng h (Some d) xAxis yAxis chartType = (Inl EmptyDataset, h)"
  by (simp add: processChartData_def)

lemma processChartData_nonempty:
  "deref h d \<noteq> [] \<Longrightarrow> \<exists>cd. fst (processChartData eng h (Some d) xAxis yAxis chartType) = Inr cd"
  by (simp add: processChartData_def alloc_def Let_def)

lemma scatter_values:
  assumes "deref h d \<noteq> []"
  shows "\<exists>cd. fst (processChartData eng h (Some d) xAxis yAxis ''scatter'') = Inr cd \<and>
           map ds_data (cd_datasets cd) =
             [map (\<lambda>row. Point (row_y xAxis row) (row_y yAxis row)) (deref h d)]"
  using assms by (simp add: processChartData_def Let_def or_zero_row_y)

lemma series_values:
  assumes "chartType \<noteq> ''pie''" "chartType \<noteq> ''scatter''" "deref h d \<noteq> []"
  shows "\<exists>cd. fst (processChartData eng h (Some d) xAxis yAxis chartType) = Inr cd \<and>
           map ds_data (cd_datasets cd) =
             [map (\<lambda>row. Value (JNum (row_y yAxis row))) (take 50 (deref h d))]"
  using assms by (simp add: processChartData_def alloc_def deref_alloc Let_def or_zero_row_y)

lemma take_assign_alloc:
  "take (length h) (assign (h @ [xs]) (length h) ys) = h"
  by (simp add: assign_def)

lemma processChartData_frame:
  "take (length h) (snd (processChartData eng h dataRef xAxis yAxis chartType)) = h"
  by (simp add: processChartData_def alloc_def Let_def split: option.split)

lemma calculateStatistics_frame:
  "take (length h) (snd (calculateStatistics eng h dataRef)) = h"
  by (simp add: calculateStatistics_def alloc_def Let_def take_assign_alloc
      split: option.split)

lemma deref_take: "a < n \<Longrightarrow> deref (take n h) a = deref h a"
  by (simp add: deref_def)

text \<open>
  Claim C9. Neither \<open>processChartData\<close> nor \<open>calculateStatistics\<close> changes an
  array that exists before the call (the input and its elements among them):
  after the call every such array holds the same elements, although the
  calculator sorts the array of numbers it has created.
\<close>

theorem inputs_not_mutated:
  "(a < length h \<longrightarrow>
      deref (snd (processChartData eng h dataRef xAxis yAxis chartType)) a = deref h a) \<and>
   (b < length hs \<longrightarrow> deref (snd (calculateStatistics eng' hs dataRef')) b = deref hs b)"
proof (intro conjI impI)
  assume a: "a < length h"
  show "deref (snd (processChartData eng h dataRef xAxis yAxis chartType)) a = deref h a"
    using deref_take [OF a, of "snd (processChartData eng h dataRef xAxis yAxis chartType)"]
    by (simp add: processChartData_frame)
next
  assume b: "b < length hs"
  show "deref (snd (calculateStatistics eng' hs dataRef')) b = deref hs b"
    using deref_take [OF b, of "snd (calculateStatistics eng' hs dataRef')"]
    by (simp add: calculateStatistics_frame)
qed

theorem inputs_not_mutated_witness:
  "deref (snd (processChartData eng0
                 [[\<lparr>own = [(''c'', JStr ''A''), (''v'', JStr ''7'')], hasProto = True\<rparr>]]
                 (Some 0) \<lparr>ax_column = ''c'', ax_label = None\<rparr>
                 \<lparr>ax_column = ''v'', ax_label = None\<rparr> ''bar'')) 0 =
     [\<lparr>own = [(''c'', JStr ''A''), (''v'', JStr ''7'')], hasProto = True\<rparr>] \<and>
   deref (snd (calculateStatistics eng0 [[JNum (dbl 3), JNum (dbl 1), JNum (dbl 2)]] (Some 0))) 0 =
     [JNum (dbl 3), JNum (dbl 1), JNum (dbl 2)]"
  using inputs_not_mutated [of 0
      "[[\<lparr>own = [(''c'', JStr ''A''), (''v'', JStr ''7'')], hasProto = True\<rparr>]]" eng0 "Some 0"
      "\<lparr>ax_column = ''c'', ax_label = None\<rparr>" "\<lparr>ax_column = ''v'', ax_label = None\<rparr>" "''bar''"
      0 "[[JNum (dbl 3), JNum (dbl 1), JNum (dbl 2)]]" eng0 "Some 0"]
  by (simp add: deref_def)

section \<open>Properties of the pie branch\<close>

lemma first_seen_Nil: "first_seen [] = []"
  by (simp add: first_seen_def)

lemma first_seen_snoc:
  "first_seen (xs @ [x]) = (if x \<in> set xs then first_seen xs else first_seen xs @ [x])"
  by (simp add: first_seen_def)

lemma set_first_seen: "set (first_seen xs) = set xs"
  by (simp add: first_seen_def)


lemma group_total_snoc:
  "group_total eng xAxis yAxis (rows @ [row]) k =
     (if row_key eng xAxis row = k
      then num_add (group_total eng xAxis yAxis rows k) (row_y yAxis row)
      else group_total eng xAxis yAxis rows k)"
  by (simp add: group_total_def sum_of_def)

lemma group_total_absent:
  "k \<notin> set (map (row_key eng xAxis) rows) \<Longrightarrow> group_total eng xAxis yAxis rows k = dbl 0"
proof -
  assume "k \<notin> set (map (row_key eng xAxis) rows)"
  then have "filter (\<lambda>row. row_key eng xAxis row = k) rows = []"
    by (auto simp: filter_empty_conv)
  then show ?thesis by (simp add: group_total_def sum_of_def)
qed

lemma sums_defined_Nil: "sums_defined eng xAxis yAxis []"
  by (simp add: sums_defined_def)

lemma sums_defined_snoc:
  "sums_defined eng xAxis yAxis (rows @ [row]) \<longleftrightarrow>
     sums_defined eng xAxis yAxis rows \<and>
     group_total eng xAxis yAxis rows (row_key eng xAxis row) \<noteq> NaN"
  by (simp add: sums_defined_def All_less_Suc nth_append conj_commute)

text \<open>Sums of finite numbers may overflow to an infinity and are never \<open>NaN\<close>.\<close>

lemma foldl_add_finite:
  "a \<noteq> NaN \<Longrightarrow> \<forall>y \<in> set ys. is_finite y \<Longrightarrow> foldl num_add a ys \<noteq> NaN"
proof (induction ys arbitrary: a)
  case Nil
  then show ?case by simp
next
  case (Cons y ys)
  from Cons.prems(2) obtain d where y: "y = Fin d"
    by (cases y) (simp_all add: is_finite_def)
  from Cons.prems(1) have "num_add a y \<noteq> NaN"
    unfolding y by (cases a) simp_all
  with Cons show ?case by simp
qed

lemma finite_sums_defined:
  assumes "\<forall>row \<in> set rows. is_finite (row_y yAxis row)"
  shows "sums_defined eng xAxis yAxis rows"
  unfolding sums_defined_def group_total_def sum_of_def
proof (intro allI impI)
  fix n assume "n < length rows"
  have "\<forall>y \<in> set (map (row_y yAxis)
           (filter (\<lambda>row. row_key eng xAxis row = row_key eng xAxis (rows ! n)) (take n rows))).
          is_finite y"
    using assms by (auto dest: in_set_takeD)
  then show "foldl num_add (dbl 0)
               (map (row_y yAxis)
                  (filter (\<lambda>row. row_key eng xAxis row = row_key eng xAxis (rows ! n)) (take n rows))) \<noteq> NaN"
    by (intro foldl_add_finite) simp_all
qed

text \<open>A row whose y-value cannot be read adds nothing to the total of its group.\<close>

lemma foldl_add_readable:
  "foldl num_add a (map (row_y yAxis) rs) =
   foldl num_add a (map (\<lambda>row. parseFloat (obj_get row (ax_column yAxis))) (filter (readable yAxis) rs))"
  by (induction rs arbitrary: a) (simp_all add: row_y_def readable_def)

lemma group_total_readable:
  "group_total eng xAxis yAxis rows k = readable_total eng xAxis yAxis rows k"
proof -
  have "filter (\<lambda>row. row_key eng xAxis row = k \<and> readable yAxis row) rows =
        filter (readable yAxis) (filter (\<lambda>row. row_key eng xAxis row = k) rows)"
    by (simp add: conj_commute)
  then show ?thesis
    by (simp only: group_total_def readable_total_def sum_of_def foldl_add_readable)
qed

lemma proto_name_not_key: "k \<notin> set objectPrototypeNames \<Longrightarrow> k \<noteq> ''__proto__''"
  by (auto simp: objectPrototypeNames_def)

lemma pie_row_update:
  assumes inv: "pie_inv eng xAxis yAxis rows g"
    and key: "row_key eng xAxis row \<notin> set objectPrototypeNames"
    and def: "group_total eng xAxis yAxis rows (row_key eng xAxis row) \<noteq> NaN"
  shows "pie_row eng xAxis yAxis g row =
           g\<lparr>own := AList.update (row_key eng xAxis row)
                      (JNum (num_add (group_total eng xAxis yAxis rows (row_key eng xAxis row))
                                     (row_y yAxis row)))
                      (own g)\<rparr>"
proof -
  let ?k = "row_key eng xAxis row"
  let ?t = "group_total eng xAxis yAxis rows ?k"
  have np: "?k \<noteq> ''__proto__''" using key by (rule proto_name_not_key)
  have put: "obj_set g ?k v = g\<lparr>own := AList.update ?k v (own g)\<rparr>" for v
    using np by (simp add: obj_set_def)
  show ?thesis
  proof (cases "?k \<in> set (map (row_key eng xAxis) rows)")
    case True
    with inv have m: "map_of (own g) ?k = Some (JNum ?t)"
      unfolding pie_inv_def by blast
    then have get: "obj_get g ?k = JNum ?t"
      by (simp add: obj_get_def)
    show ?thesis
    proof (cases "?t = dbl 0")
      case z: True
      then have "\<not> truthy (JNum ?t)" by (simp add: truthy_def)
      then show ?thesis
        unfolding pie_row_unfold get put by (simp add: z)
    next
      case False
      with def have "truthy (JNum ?t)" by (simp add: truthy_def)
      then show ?thesis
        unfolding pie_row_unfold get put by (simp add: js_plus_def)
    qed
  next
    case False
    from inv have "set (map fst (own g)) = set (map (row_key eng xAxis) rows)"
      unfolding pie_inv_def by (simp only: set_first_seen)
    with False have "?k \<notin> fst ` set (own g)"
      by simp
    then have m: "map_of (own g) ?k = None"
      by (simp add: map_of_eq_None_iff)
    have get: "obj_get g ?k = JUndefined"
      using m key by (simp add: obj_get_def)
    show ?thesis
      unfolding pie_row_unfold get put group_total_absent [OF False]
      by (simp add: truthy_def)
  qed
qed

lemma pie_inv_step:
  assumes inv: "pie_inv eng xAxis yAxis rows g"
    and key: "row_key eng xAxis row \<notin> set objectPrototypeNames"
    and def: "group_total eng xAxis yAxis rows (row_key eng xAxis row) \<noteq> NaN"
  shows "pie_inv eng xAxis yAxis (rows @ [row]) (pie_row eng xAxis yAxis g row)"
proof -
  let ?k = "row_key eng xAxis row"
  let ?v = "JNum (num_add (group_total eng xAxis yAxis rows ?k) (row_y yAxis row))"
  let ?g = "g\<lparr>own := AList.update ?k ?v (own g)\<rparr>"
  have fs: "map fst (own g) = first_seen (map (row_key eng xAxis) rows)"
    and tot: "\<And>k. k \<in> set (map (row_key eng xAxis) rows) \<Longrightarrow>
               map_of (own g) k = Some (JNum (group_total eng xAxis yAxis rows k))"
    and pr: "hasProto g"
    using inv unfolding pie_inv_def by blast+
  have keys: "?k \<in> set (map fst (own g)) \<longleftrightarrow> ?k \<in> set (map (row_key eng xAxis) rows)"
    by (simp only: fs set_first_seen)
  have 1: "hasProto ?g" using pr by simp
  have 2: "map fst (own ?g) = first_seen (map (row_key eng xAxis) (rows @ [row]))"
    using keys by (simp add: update_keys first_seen_snoc fs)
  have 3: "map_of (own ?g) k = Some (JNum (group_total eng xAxis yAxis (rows @ [row]) k))"
    if "k \<in> set (map (row_key eng xAxis) (rows @ [row]))" for k
  proof (cases "k = ?k")
    case True
    then show ?thesis by (simp add: update_conv' group_total_snoc)
  next
    case False
    with that have "k \<in> set (map (row_key eng xAxis) rows)" by auto
    from tot [OF this] False show ?thesis
      by (simp add: update_conv' group_total_snoc)
  qed
  from 1 2 3 have "pie_inv eng xAxis yAxis (rows @ [row]) ?g"
    unfolding pie_inv_def by blast
  then show ?thesis
    by (simp only: pie_row_update [OF assms])
qed

lemma pie_inv_foldl:
  assumes "\<forall>row \<in> set rows. row_key eng xAxis row \<notin> set objectPrototypeNames"
    and "sums_defined eng xAxis yAxis rows"
  shows "pie_inv eng xAxis yAxis rows (foldl (pie_row eng xAxis yAxis) empty_object rows)"
  using assms
proof (induction rows rule: rev_induct)
  case Nil
  show ?case by (simp add: pie_inv_def empty_object_def first_seen_Nil)
next
  case (snoc row rows)
  then show ?case by (simp add: pie_inv_step sums_defined_snoc)
qed

lemma set_key_order: "set (key_order ks) = set ks"
  by (auto simp: key_order_def)



lemma pie_inv_values:
  assumes inv: "pie_inv eng xAxis yAxis rows g"
    and ks: "set ks \<subseteq> set (map (row_key eng xAxis) rows)"
  shows "map (obj_get g) ks = map (\<lambda>k. JNum (group_total eng xAxis yAxis rows k)) ks"
proof (rule map_cong [OF refl])
  fix k assume "k \<in> set ks"
  with ks have "k \<in> set (map (row_key eng xAxis) rows)" by blast
  with inv have "map_of (own g) k = Some (JNum (group_total eng xAxis yAxis rows k))"
    unfolding pie_inv_def by blast
  then show "obj_get g k = JNum (group_total eng xAxis yAxis rows k)"
    by (simp add: obj_get_def)
qed

lemma processChartData_pie:
  "deref h d \<noteq> [] \<Longrightarrow>
     processChartData eng h (Some d) xAxis yAxis ''pie'' =
       (Inr \<lparr>cd_labels = map JStr (object_keys (foldl (pie_row eng xAxis yAxis) empty_object (deref h d))),
             cd_datasets =
               [\<lparr>ds_label = label_or_column yAxis,
                 ds_data = map Value (object_values (foldl (pie_row eng xAxis yAxis) empty_object (deref h d))),
                 ds_backgroundColor =
                   Paints (map (\<lambda>index. colors ! (index mod length colors))
                             [0..<length (object_keys (foldl (pie_row eng xAxis yAxis) empty_object (deref h d)))]),
                 ds_borderColor = Paints [], ds_borderWidth = 1, ds_fill = None, ds_tension = None\<rparr>]\<rparr>,
        h)"
  by (simp add: processChartData_def Let_def)

lemma pie_series:
  assumes ne: "deref h d \<noteq> []"
    and keys: "\<forall>row \<in> set (deref h d). row_key eng xAxis row \<notin> set objectPrototypeNames"
    and sd: "sums_defined eng xAxis yAxis (deref h d)"
  shows "processChartData eng h (Some d) xAxis yAxis ''pie'' =
           (Inr \<lparr>cd_labels = map JStr (key_order (first_seen (map (row_key eng xAxis) (deref h d)))),
                 cd_datasets =
                   [\<lparr>ds_label = label_or_column yAxis,
                     ds_data = map (\<lambda>k. Value (JNum (group_total eng xAxis yAxis (deref h d) k)))
                                 (key_order (first_seen (map (row_key eng xAxis) (deref h d)))),
                     ds_backgroundColor =
                       Paints (map (\<lambda>index. colors ! (index mod length colors))
                                 [0..<length (key_order (first_seen (map (row_key eng xAxis) (deref h d))))]),
                     ds_borderColor = Paints [], ds_borderWidth = 1, ds_fill = None,
                     ds_tension = None\<rparr>]\<rparr>,
            h)"
proof -
  let ?rows = "deref h d"
  let ?g = "foldl (pie_row eng xAxis yAxis) empty_object ?rows"
  let ?ks = "first_seen (map (row_key eng xAxis) ?rows)"
  have inv: "pie_inv eng xAxis yAxis ?rows ?g"
    by (rule pie_inv_foldl [OF keys sd])
  then have own: "map fst (own ?g) = ?ks"
    by (simp add: pie_inv_def)
  have labels: "object_keys ?g = key_order ?ks"
    by (simp add: object_keys_def own)
  have "set (key_order ?ks) \<subseteq> set (map (row_key eng xAxis) ?rows)"
    by (simp add: set_key_order set_first_seen)
  from pie_inv_values [OF inv this]
  have vals: "object_values ?g =
                map (\<lambda>k. JNum (group_total eng xAxis yAxis ?rows k)) (key_order ?ks)"
    by (simp add: object_values_def labels)
  show ?thesis
    unfolding processChartData_pie [OF ne] labels vals by (simp add: o_def)
qed




section \<open>Failure and unreadable values of the chart series builder\<close>

lemma pie_values:
  assumes ne: "deref h d \<noteq> []"
    and keys: "\<forall>row \<in> set (deref h d). row_key eng xAxis row \<notin> set objectPrototypeNames"
    and sd: "sums_defined eng xAxis yAxis (deref h d)"
  shows "\<exists>cd. fst (processChartData eng h (Some d) xAxis yAxis ''pie'') = Inr cd \<and>
           map ds_data (cd_datasets cd) =
             [map (\<lambda>k. Value (JNum (readable_total eng xAxis yAxis (deref h d) k)))
                  (key_order (first_seen (map (row_key eng xAxis) (deref h d))))]"
  unfolding pie_series [OF ne keys sd] by (simp add: group_total_readable)

lemma pie_row_same_xy:
  "same_xy xAxis yAxis row row' \<Longrightarrow>
     pie_row eng xAxis yAxis g row = pie_row eng xAxis yAxis g row'"
  by (simp add: pie_row_unfold same_xy_def row_key_def)

lemma foldl_pie_row_same_xy:
  "list_all2 (same_xy xAxis yAxis) rows rows' \<Longrightarrow>
     foldl (pie_row eng xAxis yAxis) g rows = foldl (pie_row eng xAxis yAxis) g rows'"
proof (induction arbitrary: g rule: list_all2_induct)
  case Nil
  show ?case by simp
next
  case (Cons row rows row' rows')
  then show ?case by (simp add: pie_row_same_xy)
qed

lemma map_related:
  "list_all2 R xs ys \<Longrightarrow> (\<And>a b. R a b \<Longrightarrow> f a = f b) \<Longrightarrow> map f xs = map f ys"
  by (induction rule: list_all2_induct) auto

lemma processChartData_same_xy:
  assumes rel: "list_all2 (same_xy xAxis yAxis) (deref h d) (deref h' d')"
  shows "fst (processChartData eng h (Some d) xAxis yAxis chartType) =
         fst (processChartData eng h' (Some d') xAxis yAxis chartType)"
proof -
  from rel have len: "length (deref h d) = length (deref h' d')"
    by (rule list_all2_lengthD)
  from rel have rel50: "list_all2 (same_xy xAxis yAxis) (take 50 (deref h d)) (take 50 (deref h' d'))"
    by (rule list_all2_takeI)
  have pie: "foldl (pie_row eng xAxis yAxis) empty_object (deref h d) =
             foldl (pie_row eng xAxis yAxis) empty_object (deref h' d')"
    by (rule foldl_pie_row_same_xy [OF rel])
  have sc: "map (\<lambda>row. Point (or_zero (parseFloat (obj_get row (ax_column xAxis))))
                              (or_zero (parseFloat (obj_get row (ax_column yAxis))))) (deref h d) =
            map (\<lambda>row. Point (or_zero (parseFloat (obj_get row (ax_column xAxis))))
                              (or_zero (parseFloat (obj_get row (ax_column yAxis))))) (deref h' d')"
    by (rule map_related [OF rel]) (simp add: same_xy_def or_zero_row_y)
  have lb: "map (\<lambda>row. obj_get row (ax_column xAxis)) (take 50 (deref h d)) =
            map (\<lambda>row. obj_get row (ax_column xAxis)) (take 50 (deref h' d'))"
    by (rule map_related [OF rel50]) (simp add: same_xy_def)
  have vl: "map (\<lambda>row. Value (JNum (or_zero (parseFloat (obj_get row (ax_column yAxis))))))
                (take 50 (deref h d)) =
            map (\<lambda>row. Value (JNum (or_zero (parseFloat (obj_get row (ax_column yAxis))))))
                (take 50 (deref h' d'))"
    by (rule map_related [OF rel50]) (simp add: same_xy_def or_zero_row_y)
  have e: "deref h d = [] \<longleftrightarrow> deref h' d' = []"
    using len by auto
  show ?thesis
    by (simp add: processChartData_def alloc_def deref_alloc Let_def pie sc lb vl e)
qed

text \<open>
  Claim C7. The builder fails with \<open>EmptyDataset\<close> exactly when the row list
  is empty (or \<^verbatim>\<open>data\<close> is missing), and returns a chart for every non-empty row
  list and every chart type. In that chart a y-value that \<^verbatim>\<open>parseFloat\<close> cannot
  read counts \<open>0\<close>. The series of a bar, line or area chart holds the y-values
  of the first 50 rows and the points of a scatter chart hold the x-values and
  y-values of the rows, where the value of an unreadable cell is \<open>0\<close>. Each
  slice of a pie chart is the total of the readable y-values of its group, the
  rows with an unreadable y-value adding nothing (for x-values that are no
  names of properties of \<^verbatim>\<open>Object.prototype\<close> and totals that do not pass through
  \<open>NaN\<close>, as in claim C2). For every row list and every chart type, the chart
  depends on the y-column only through these y-values: an unreadable y-value
  gives the chart that the number \<open>0\<close> in its place gives.
\<close>

theorem chart_fails_only_on_empty:
  "fst (processChartData eng h None xAxis yAxis chartType) = Inl EmptyDataset \<and>
   (fst (processChartData eng h (Some d) xAxis yAxis chartType) = Inl EmptyDataset \<longleftrightarrow>
      deref h d = []) \<and>
   (deref h d \<noteq> [] \<longrightarrow>
      (\<exists>cd. fst (processChartData eng h (Some d) xAxis yAxis chartType) = Inr cd \<and>
         (chartType = ''pie'' \<and>
          (\<forall>row \<in> set (deref h d). row_key eng xAxis row \<notin> set objectPrototypeNames) \<and>
          sums_defined eng xAxis yAxis (deref h d) \<longrightarrow>
            map ds_data (cd_datasets cd) =
              [map (\<lambda>k. Value (JNum (readable_total eng xAxis yAxis (deref h d) k)))
                   (key_order (first_seen (map (row_key eng xAxis) (deref h d))))]) \<and>
         (chartType = ''scatter'' \<longrightarrow>
            map ds_data (cd_datasets cd) =
              [map (\<lambda>row. Point (row_y xAxis row) (row_y yAxis row)) (deref h d)]) \<and>
         (chartType \<noteq> ''pie'' \<and> chartType \<noteq> ''scatter'' \<longrightarrow>
            map ds_data (cd_datasets cd) =
              [map (\<lambda>row. Value (JNum (row_y yAxis row))) (take 50 (deref h d))]))) \<and>
   (\<not> readable yAxis row \<longrightarrow> row_y yAxis row = dbl 0) \<and>
   (list_all2 (same_xy xAxis yAxis) (deref h d) (deref h' d') \<longrightarrow>
      fst (processChartData eng h (Some d) xAxis yAxis chartType) =
      fst (processChartData eng h' (Some d') xAxis yAxis chartType))"
proof (intro conjI impI)
  show "fst (processChartData eng h None xAxis yAxis chartType) = Inl EmptyDataset"
    by (simp add: processChartData_def)
  show "fst (processChartData eng h (Some d) xAxis yAxis chartType) = Inl EmptyDataset \<longleftrightarrow>
          deref h d = []"
    using processChartData_empty [of h d eng xAxis yAxis chartType]
      processChartData_nonempty [of h d eng xAxis yAxis chartType]
    by (cases "deref h d = []") auto
  show "row_y yAxis row = dbl 0" if "\<not> readable yAxis row"
    using that by (simp add: readable_def row_y_def)
  show "fst (processChartData eng h (Some d) xAxis yAxis chartType) =
        fst (processChartData eng h' (Some d') xAxis yAxis chartType)"
    if "list_all2 (same_xy xAxis yAxis) (deref h d) (deref h' d')"
    using that by (rule processChartData_same_xy)
next
  assume ne: "deref h d \<noteq> []"
  let ?pie = "chartType = ''pie'' \<and>
          (\<forall>row \<in> set (deref h d). row_key eng xAxis row \<notin> set objectPrototypeNames) \<and>
          sums_defined eng xAxis yAxis (deref h d)"
  have d: "''pie'' \<noteq> ''scatter''" by simp
  consider (pie) "?pie" | (scatter) "chartType = ''scatter''"
    | (series) "chartType \<noteq> ''pie''" "chartType \<noteq> ''scatter''"
    | (other) "chartType = ''pie''" "\<not> ?pie"
    by blast
  then show "\<exists>cd. fst (processChartData eng h (Some d) xAxis yAxis chartType) = Inr cd \<and>
         (?pie \<longrightarrow>
            map ds_data (cd_datasets cd) =
              [map (\<lambda>k. Value (JNum (readable_total eng xAxis yAxis (deref h d) k)))
                   (key_order (first_seen (map (row_key eng xAxis) (deref h d))))]) \<and>
         (chartType = ''scatter'' \<longrightarrow>
            map ds_data (cd_datasets cd) =
              [map (\<lambda>row. Point (row_y xAxis row) (row_y yAxis row)) (deref h d)]) \<and>
         (chartType \<noteq> ''pie'' \<and> chartType \<noteq> ''scatter'' \<longrightarrow>
            map ds_data (cd_datasets cd) =
              [map (\<lambda>row. Value (JNum (row_y yAxis row))) (take 50 (deref h d))])"
  proof cases
    case pie
    then have ct: "chartType = ''pie''" by simp
    from pie have k: "\<forall>row \<in> set (deref h d). row_key eng xAxis row \<notin> set objectPrototypeNames"
      and s: "sums_defined eng xAxis yAxis (deref h d)"
      by simp_all
    from pie_values [OF ne k s] obtain cd where
      "fst (processChartData eng h (Some d) xAxis yAxis ''pie'') = Inr cd"
      "map ds_data (cd_datasets cd) =
             [map (\<lambda>k. Value (JNum (readable_total eng xAxis yAxis (deref h d) k)))
                  (key_order (first_seen (map (row_key eng xAxis) (deref h d))))]"
      by (elim exE conjE)
    then show ?thesis unfolding ct using d by (intro exI [of _ cd]) simp
  next
    case scatter
    from scatter_values [OF ne, of eng xAxis yAxis] obtain cd where
      "fst (processChartData eng h (Some d) xAxis yAxis ''scatter'') = Inr cd"
      "map ds_data (cd_datasets cd) =
             [map (\<lambda>row. Point (row_y xAxis row) (row_y yAxis row)) (deref h d)]"
      by (elim exE conjE)
    then show ?thesis unfolding scatter using d by (intro exI [of _ cd]) simp
  next
    case series
    from series_values [OF series ne, of eng xAxis yAxis] obtain cd where
      "fst (processChartData eng h (Some d) xAxis yAxis chartType) = Inr cd"
      "map ds_data (cd_datasets cd) =
             [map (\<lambda>row. Value (JNum (row_y yAxis row))) (take 50 (deref h d))]"
      by (elim exE conjE)
    with series show ?thesis by (intro exI [of _ cd]) simp
  next
    case other
    from processChartData_nonempty [OF ne, of eng xAxis yAxis chartType] obtain cd where
      "fst (processChartData eng h (Some d) xAxis yAxis chartType) = Inr cd"
      by (elim exE)
    with other d show ?thesis by (intro exI [of _ cd]) auto
  qed
qed

theorem chart_fails_only_on_empty_witness:
  "fst (processChartData eng0 [[]] (Some 0) \<lparr>ax_column = ''c'', ax_label = None\<rparr>
          \<lparr>ax_column = ''v'', ax_label = None\<rparr> ''pie'') = Inl EmptyDataset \<and>
   (\<exists>cd. fst (processChartData eng0
                 [[\<lparr>own = [(''c'', JStr ''A''), (''v'', JStr ''n/a'')], hasProto = True\<rparr>,
                   \<lparr>own = [(''c'', JStr ''A''), (''v'', JNum (dbl 2))], hasProto = True\<rparr>]]
                 (Some 0) \<lparr>ax_column = ''c'', ax_label = None\<rparr>
                 \<lparr>ax_column = ''v'', ax_label = None\<rparr> ''pie'') = Inr cd \<and>
          map ds_data (cd_datasets cd) = [[Value (JNum (dbl 2))]]) \<and>
   (\<exists>cd. fst (processChartData eng0
                 [[\<lparr>own = [(''c'', JStr ''A''), (''v'', JStr ''n/a'')], hasProto = True\<rparr>,
                   \<lparr>own = [(''c'', JStr ''A''), (''v'', JNum (dbl 2))], hasProto = True\<rparr>]]
                 (Some 0) \<lparr>ax_column = ''c'', ax_label = None\<rparr>
                 \<lparr>ax_column = ''v'', ax_label = None\<rparr> ''bar'') = Inr cd \<and>
          map ds_data (cd_datasets cd) = [[Value (JNum (dbl 0)), Value (JNum (dbl 2))]]) \<and>
   fst (processChartData eng0
          [[\<lparr>own = [(''c'', JStr ''A''), (''v'', JStr ''n/a'')], hasProto = True\<rparr>,
            \<lparr>own = [(''c'', JStr ''A''), (''v'', JNum (dbl 2))], hasProto = True\<rparr>]]
          (Some 0) \<lparr>ax_column = ''c'', ax_label = None\<rparr>
          \<lparr>ax_column = ''v'', ax_label = None\<rparr> ''pie'') =
   fst (processChartData eng0
          [[\<lparr>own = [(''c'', JStr ''A''), (''v'', JNum (dbl 0))], hasProto = True\<rparr>,
            \<lparr>own = [(''c'', JStr ''A''), (''v'', JNum (dbl 2))], hasProto = True\<rparr>]]
          (Some 0) \<lparr>ax_column = ''c'', ax_label = None\<rparr>
          \<lparr>ax_column = ''v'', ax_label = None\<rparr> ''pie'')"
proof -
  let ?rows = "[\<lparr>own = [(''c'', JStr ''A''), (''v'', JStr ''n/a'')], hasProto = True\<rparr>,
                \<lparr>own = [(''c'', JStr ''A''), (''v'', JNum (dbl 2))], hasProto = True\<rparr>]"
  let ?x = "\<lparr>ax_column = ''c'', ax_label = None\<rparr>"
  let ?y = "\<lparr>ax_column = ''v'', ax_label = None\<rparr>"
  have p: "parse_decimal ''n/a'' = NaN"
    by (simp add: parse_decimal_def unsigned_literal_def is_ws_def is_digit_def)
  have d: "deref [?rows] 0 = ?rows" and ne: "deref [?rows] 0 \<noteq> []"
    by (simp_all add: deref_def)
  have keys: "map (row_key eng0 ?x) ?rows = [''A'', ''A'']"
    by (simp add: row_key_def toPropertyKey_def obj_get_def)
  have ys: "map (row_y ?y) ?rows = [dbl 0, dbl 2]"
    by (simp add: row_y_def obj_get_def parseFloat_def p)
  have k: "\<forall>row \<in> set (deref [?rows] 0). row_key eng0 ?x row \<notin> set objectPrototypeNames"
    unfolding d using keys by (simp add: objectPrototypeNames_def)
  have "\<forall>row \<in> set (deref [?rows] 0). is_finite (row_y ?y row)"
    unfolding d using ys by (simp add: is_finite_def dbl_representable)
  then have f: "sums_defined eng0 ?x ?y (deref [?rows] 0)"
    by (rule finite_sums_defined)
  have order: "key_order (first_seen [''A'', ''A'']) = [''A'']"
    by (simp add: key_order_def first_seen_def is_array_index_def is_digit_def)
  have tot: "readable_total eng0 ?x ?y ?rows ''A'' = dbl 2"
    using keys by (simp add: readable_total_def readable_def sum_of_def obj_get_def parseFloat_def p)
  let ?zrows = "[\<lparr>own = [(''c'', JStr ''A''), (''v'', JNum (dbl 0))], hasProto = True\<rparr>,
                 \<lparr>own = [(''c'', JStr ''A''), (''v'', JNum (dbl 2))], hasProto = True\<rparr>]"
  have rel: "list_all2 (same_xy ?x ?y) (deref [?rows] 0) (deref [?zrows] 0)"
    by (simp add: deref_def same_xy_def obj_get_def row_y_def p parseFloat_def)
  note empty = chart_fails_only_on_empty [where eng = eng0 and h = "[[]]" and xAxis = ?x
      and yAxis = ?y and chartType = "''pie''" and d = 0]
  note pie = chart_fails_only_on_empty [where eng = eng0 and h = "[?rows]" and xAxis = ?x
      and yAxis = ?y and chartType = "''pie''" and d = 0 and h' = "[?zrows]" and d' = 0]
  note bar = chart_fails_only_on_empty [where eng = eng0 and h = "[?rows]" and xAxis = ?x
      and yAxis = ?y and chartType = "''bar''" and d = 0]
  have 1: "fst (processChartData eng0 [[]] (Some 0) ?x ?y ''pie'') = Inl EmptyDataset"
    using empty [THEN conjunct2, THEN conjunct1] by (simp add: deref_def)
  from mp [OF pie [THEN conjunct2, THEN conjunct2, THEN conjunct1] ne] obtain cd where
    c: "fst (processChartData eng0 [?rows] (Some 0) ?x ?y ''pie'') = Inr cd"
    and v: "''pie'' = ''pie'' \<and>
          (\<forall>row \<in> set (deref [?rows] 0). row_key eng0 ?x row \<notin> set objectPrototypeNames) \<and>
          sums_defined eng0 ?x ?y (deref [?rows] 0) \<longrightarrow>
            map ds_data (cd_datasets cd) =
              [map (\<lambda>k. Value (JNum (readable_total eng0 ?x ?y (deref [?rows] 0) k)))
                   (key_order (first_seen (map (row_key eng0 ?x) (deref [?rows] 0))))]"
    by (elim exE conjE)
  from v k f have "map ds_data (cd_datasets cd) =
              [map (\<lambda>k. Value (JNum (readable_total eng0 ?x ?y (deref [?rows] 0) k)))
                   (key_order (first_seen (map (row_key eng0 ?x) (deref [?rows] 0))))]"
    by (intro mp [OF v] conjI refl)
  then have "map ds_data (cd_datasets cd) = [[Value (JNum (dbl 2))]]"
    unfolding d keys order by (simp add: tot)
  with c have 2: "\<exists>cd. fst (processChartData eng0 [?rows] (Some 0) ?x ?y ''pie'') = Inr cd \<and>
          map ds_data (cd_datasets cd) = [[Value (JNum (dbl 2))]]"
    by (intro exI [of _ cd] conjI)
  from mp [OF bar [THEN conjunct2, THEN conjunct2, THEN conjunct1] ne] obtain cd' where
    c': "fst (processChartData eng0 [?rows] (Some 0) ?x ?y ''bar'') = Inr cd'"
    and v': "''bar'' \<noteq> ''pie'' \<and> ''bar'' \<noteq> ''scatter'' \<longrightarrow>
            map ds_data (cd_datasets cd') =
              [map (\<lambda>row. Value (JNum (row_y ?y row))) (take 50 (deref [?rows] 0))]"
    by (elim exE conjE)
  from v' have "map ds_data (cd_datasets cd') =
              [map (\<lambda>row. Value (JNum (row_y ?y row))) (take 50 (deref [?rows] 0))]"
    by simp
  then have "map ds_data (cd_datasets cd') = [[Value (JNum (dbl 0)), Value (JNum (dbl 2))]]"
    unfolding d using ys by simp
  with c' have 3: "\<exists>cd. fst (processChartData eng0 [?rows] (Some 0) ?x ?y ''bar'') = Inr cd \<and>
          map ds_data (cd_datasets cd) = [[Value (JNum (dbl 0)), Value (JNum (dbl 2))]]"
    by (intro exI [of _ cd'] conjI)
  have 4: "fst (processChartData eng0 [?rows] (Some 0) ?x ?y ''pie'') =
           fst (processChartData eng0 [?zrows] (Some 0) ?x ?y ''pie'')"
    by (rule mp [OF pie [THEN conjunct2, THEN conjunct2, THEN conjunct2, THEN conjunct2] rel])
  from 1 2 3 4 show ?thesis
    by (intro conjI)
qed

section \<open>Properties of the statistics calculator\<close>

lemma numeric_values_plain: "v \<in> set (numeric_values vals) \<Longrightarrow> plain_number v"
  by (cases v) (auto simp: numeric_values_def typeof_def isNaN_def num_of_def plain_number_def)

lemma insert_sorted_insort:
  assumes "plain_number x" and "\<forall>y \<in> set ys. plain_number y"
  shows "insert_sorted minus_compare x ys = insort_key val_rank x ys"
  using assms
proof (induction ys)
  case Nil
  show ?case by simp
next
  case (Cons y ys)
  from Cons.prems obtain a b where "x = JNum a" "a \<noteq> NaN" "y = JNum b" "b \<noteq> NaN"
    by (auto simp: plain_number_def)
  then have "is_positive (minus_compare x y) \<longleftrightarrow> \<not> val_rank x \<le> val_rank y"
    by (simp add: minus_compare_def num_of_def is_positive_minus not_le val_rank_def)
  with Cons show ?case by simp
qed

lemma array_sort_sort_key:
  "\<forall>x \<in> set xs. plain_number x \<Longrightarrow> array_sort minus_compare xs = sort_key val_rank xs"
proof (induction xs)
  case Nil
  show ?case by (simp add: array_sort_def)
next
  case (Cons x xs)
  then have ih: "array_sort minus_compare xs = sort_key val_rank xs" by simp
  have "\<forall>y \<in> set (sort_key val_rank xs). plain_number y"
    using Cons.prems by simp
  with Cons.prems have "insert_sorted minus_compare x (sort_key val_rank xs) =
      insort_key val_rank x (sort_key val_rank xs)"
    by (intro insert_sorted_insort) simp_all
  with ih show ?case
    by (simp add: array_sort_def sort_key_def)
qed

lemma array_sort_numeric_values:
  "array_sort minus_compare (numeric_values vals) = sort_key val_rank (numeric_values vals)"
  by (rule array_sort_sort_key) (simp add: numeric_values_plain)


lemma count_list_snoc: "count_list (xs @ [x]) = (count_list xs)(x := count_list xs x + 1)"
  by (rule ext) simp

lemma scan_ok_step:
  assumes ok: "scan_ok nums st" and le: "\<forall>y \<in> set nums. rank y \<le> rank x"
  shows "scan_ok (nums @ [x]) (mode_step st x)"
proof -
  obtain frequency maxFreq mode where st: "st = (frequency, maxFreq, mode)"
    by (cases st) auto
  from ok have fr: "frequency = count_list nums"
    by (simp add: scan_ok_def st)
  let ?c = "count_list nums"
  let ?c' = "count_list (nums @ [x])"
  have c': "?c' = ?c(x := ?c x + 1)" by (rule count_list_snoc)
  have bound: "?c v \<le> maxFreq" for v
    using ok by (cases "nums = []") (auto simp: scan_ok_def st)
  show ?thesis
  proof (cases "?c x + 1 > maxFreq")
    case True
    have step: "mode_step st x = (?c', ?c x + 1, Some x)"
      using True by (simp add: mode_step_def st fr Let_def c')
    have a: "\<forall>v. ?c' v \<le> ?c x + 1"
    proof
      fix v show "?c' v \<le> ?c x + 1"
        using bound [of v] True by (simp add: c')
    qed
    have b: "\<forall>v. ?c' v = ?c x + 1 \<longrightarrow> rank x \<le> rank v"
    proof (intro allI impI)
      fix v assume v: "?c' v = ?c x + 1"
      have "v = x"
      proof (rule ccontr)
        assume "v \<noteq> x"
        with v have "?c v = ?c x + 1" by (simp add: c')
        with True bound [of v] show False by simp
      qed
      then show "rank x \<le> rank v" by simp
    qed
    have c: "?c' x = ?c x + 1" by (simp add: c')
    show ?thesis
      unfolding step scan_ok_def using a b c by simp
  next
    case False
    then have "nums \<noteq> []"
      using ok by (auto simp: scan_ok_def st)
    with ok obtain m where m: "mode = Some m" "m \<in> set nums" "?c m = maxFreq"
      "\<forall>v. ?c v = maxFreq \<longrightarrow> rank m \<le> rank v"
      by (auto simp: scan_ok_def st)
    have step: "mode_step st x = (?c', maxFreq, Some m)"
      using False by (simp add: mode_step_def st fr Let_def c' m(1))
    have mx: "m \<noteq> x"
      using False m(3) by auto
    have a: "\<forall>v. ?c' v \<le> maxFreq"
    proof
      fix v show "?c' v \<le> maxFreq"
        using bound [of v] False by (simp add: c')
    qed
    have b: "\<forall>v. ?c' v = maxFreq \<longrightarrow> rank m \<le> rank v"
    proof (intro allI impI)
      fix v assume v: "?c' v = maxFreq"
      show "rank m \<le> rank v"
      proof (cases "v = x")
        case True
        with le [rule_format, of m] m(2) show ?thesis by simp
      next
        case False
        with v have "?c v = maxFreq" by (simp add: c')
        with m(4) [rule_format, of v] show ?thesis by simp
      qed
    qed
    have c: "?c' m = maxFreq"
      using mx m(3) by (simp add: c')
    show ?thesis
      unfolding step scan_ok_def using a b c m(2) by simp
  qed
qed

lemma scan_ok_foldl:
  "sorted (map rank nums) \<Longrightarrow> scan_ok nums (foldl mode_step (\<lambda>_. 0, 0, None) nums)"
proof (induction nums rule: rev_induct)
  case Nil
  show ?case by (simp add: scan_ok_def fun_eq_iff)
next
  case (snoc x nums)
  from snoc.prems have s: "sorted (map rank nums)" and le: "\<forall>y \<in> set nums. rank y \<le> rank x"
    by (auto simp: sorted_append)
  from scan_ok_step [OF snoc.IH [OF s] le] show ?case by simp
qed

lemma mode_scan_sorted:
  assumes "sorted (map rank nums)" and "nums \<noteq> []"
  shows "\<exists>m. mode_scan nums = Some m \<and> smallest_most_frequent nums m"
proof -
  obtain frequency maxFreq mode where st: "foldl mode_step (\<lambda>_. 0, 0, None) nums = (frequency, maxFreq, mode)"
    by (cases "foldl mode_step (\<lambda>_. 0, 0, None) nums") auto
  from scan_ok_foldl [OF assms(1)] assms(2) obtain m where
    "mode = Some m" "m \<in> set nums" "count_list nums m = maxFreq"
    "\<forall>v. count_list nums v \<le> maxFreq" "\<forall>v. count_list nums v = maxFreq \<longrightarrow> rank m \<le> rank v"
    by (auto simp: scan_ok_def st)
  then show ?thesis
    by (auto simp: mode_scan_def st smallest_most_frequent_def num_le_def)
qed


lemma round2_pos:
  assumes "0 < x"
  shows "round2 x * 100 \<in> \<int>" "\<bar>round2 x - x\<bar> \<le> 1 / 200"
    "\<bar>round2 x - x\<bar> = 1 / 200 \<Longrightarrow> \<bar>x\<bar> < \<bar>round2 x\<bar>"
proof -
  let ?n = "\<lfloor>x * 100 + 1 / 2\<rfloor>"
  have r: "round2 x = real_of_int ?n / 100"
    using assms by (simp add: round2_def)
  have lo: "real_of_int ?n \<le> x * 100 + 1 / 2" by (rule of_int_floor_le)
  have hi: "x * 100 + 1 / 2 < real_of_int ?n + 1" by linarith
  have d_hi: "round2 x - x \<le> 1 / 200" unfolding r using lo by linarith
  have d_lo: "- (1 / 200) < round2 x - x" unfolding r using hi by linarith
  show "round2 x * 100 \<in> \<int>" by (simp add: r)
  show "\<bar>round2 x - x\<bar> \<le> 1 / 200" using d_hi d_lo by linarith
  show "\<bar>x\<bar> < \<bar>round2 x\<bar>" if "\<bar>round2 x - x\<bar> = 1 / 200"
    using that d_lo assms by linarith
qed

lemma round2_neg: "round2 (- x) = - round2 x"
  by (simp add: round2_def sgn_minus)

lemma round2_zero: "round2 0 = 0"
  by (simp add: round2_def)

lemma round2_half_away: "half_away_2dp x (round2 x)"
proof -
  consider "0 < x" | "x = 0" | "0 < - x" by linarith
  then have "round2 x * 100 \<in> \<int> \<and> \<bar>round2 x - x\<bar> \<le> 1 / 200 \<and>
    (\<bar>round2 x - x\<bar> = 1 / 200 \<longrightarrow> \<bar>x\<bar> < \<bar>round2 x\<bar>)"
  proof cases
    case 1
    from round2_pos [OF 1] show ?thesis by blast
  next
    case 2
    then show ?thesis by (simp add: round2_zero)
  next
    case 3
    have e: "round2 x = - round2 (- x)" using round2_neg [of "- x"] by simp
    have i: "- (round2 (- x) * 100) \<in> \<int>"
      using round2_pos(1) [OF 3] by (rule Ints_minus)
    have a: "\<bar>round2 x - x\<bar> = \<bar>round2 (- x) - (- x)\<bar>" unfolding e by linarith
    have b: "\<bar>round2 x\<bar> = \<bar>round2 (- x)\<bar>" unfolding e by simp
    from round2_pos [OF 3] i show ?thesis
      unfolding a b by (simp add: e)
  qed
  then show ?thesis unfolding half_away_2dp_def .
qed


lemma numeric_values_Nil: "numeric_values [] = []"
  by (simp add: numeric_values_def)

lemma sorted_numbers_sort: "sorted_numbers vals = sort_key val_rank (numeric_values vals)"
  by (simp add: sorted_numbers_def array_sort_numeric_values)

lemma sorted_numbers_ranked: "sorted (map rank (map num_of (sorted_numbers vals)))"
proof -
  have "map rank (map num_of (sorted_numbers vals)) = map val_rank (sorted_numbers vals)"
    by (simp add: val_rank_def)
  moreover have "sorted (map val_rank (sort_key val_rank (numeric_values vals)))"
    by (rule sorted_sort_key)
  ultimately show ?thesis
    by (simp only: sorted_numbers_sort)
qed

lemma sorted_numbers_mset:
  "mset (map num_of (sorted_numbers vals)) = mset (map num_of (numeric_values vals))"
  by (simp add: sorted_numbers_sort)

lemma sorted_numbers_empty: "sorted_numbers vals = [] \<longleftrightarrow> numeric_values vals = []"
  by (simp add: sorted_numbers_sort flip: length_0_conv)

lemma calculateStatistics_result:
  assumes ne: "numeric_values (deref h d) \<noteq> []"
  shows "\<exists>m. mode_scan (map num_of (sorted_numbers (deref h d))) = Some m \<and>
             smallest_most_frequent (map num_of (sorted_numbers (deref h d))) m \<and>
             calculateStatistics eng h (Some d) =
               (Inr (Some \<lparr>st_mean = toFixed2 (mean_of (sorted_numbers (deref h d))),
                           st_median = toFixed2 (median_of (sorted_numbers (deref h d))),
                           st_mode = toFixed2 m,
                           st_range = toFixed2 (range_of (sorted_numbers (deref h d))),
                           st_standardDeviation =
                             toFixed2 (standardDeviation_of eng (sorted_numbers (deref h d))
                                         (mean_of (sorted_numbers (deref h d))))\<rparr>),
                h @ [sorted_numbers (deref h d)])"
proof -
  let ?S = "sorted_numbers (deref h d)"
  from ne have S: "?S \<noteq> []" by (simp add: sorted_numbers_empty)
  then have "map num_of ?S \<noteq> []" by simp
  from mode_scan_sorted [OF sorted_numbers_ranked this] obtain m where
    m: "mode_scan (map num_of ?S) = Some m" "smallest_most_frequent (map num_of ?S) m"
    by blast
  from ne have data: "deref h d \<noteq> []"
    by (auto simp: numeric_values_Nil)
  have a: "assign (h @ [numeric_values (deref h d)]) (length h) ?S = h @ [?S]"
    by (simp add: assign_def)
  have b: "deref (h @ [xs]) (length h) = xs" for xs :: "jsval list"
    by (simp add: deref_def)
  have "calculateStatistics eng h (Some d) =
               (Inr (Some \<lparr>st_mean = toFixed2 (mean_of ?S),
                           st_median = toFixed2 (median_of ?S),
                           st_mode = toFixed2 m,
                           st_range = toFixed2 (range_of ?S),
                           st_standardDeviation =
                             toFixed2 (standardDeviation_of eng ?S (mean_of ?S))\<rparr>),
                h @ [?S])"
    using data ne
    by (simp add: calculateStatistics_def alloc_def b a sorted_numbers_def [symmetric] m(1) Let_def)
  with m show ?thesis by blast
qed

lemma smallest_most_frequent_mset:
  assumes "mset xs = mset ys" and "smallest_most_frequent xs m"
  shows "smallest_most_frequent ys m"
proof -
  from assms(1) have s: "set xs = set ys" by (rule mset_eq_setD)
  have c: "count_list xs v = count_list ys v" for v
    using assms(1) by (metis count_mset)
  from assms(2) show ?thesis
    by (simp add: smallest_most_frequent_def s c)
qed

text \<open>At most one value is the smallest of the most frequent ones.\<close>

lemma smallest_most_frequent_unique:
  assumes "smallest_most_frequent nums a" and "smallest_most_frequent nums b"
  shows "a = b"
proof -
  from assms have ab: "count_list nums b \<le> count_list nums a" "count_list nums a \<le> count_list nums b"
    by (auto simp: smallest_most_frequent_def)
  then have e: "count_list nums a = count_list nums b" by simp
  from assms e have "num_le a b" "num_le b a"
    by (auto simp: smallest_most_frequent_def)
  then have "rank a = rank b" by (simp add: num_le_def)
  then show ?thesis
    by (cases a; cases b) (simp_all add: rank_def dval_inject)
qed

text \<open>
  Claim C1, as amended. When the input holds at least one number that is not
  \<open>NaN\<close>, the calculator returns statistics whose mode is, rounded to two
  decimals like every output, a value with the highest occurrence count among
  the filtered numeric values, and among several values with that count the
  numerically smallest: the scan runs over the array after its sort, so the
  first value to reach the maximum count is the first in ascending order, not
  in input order.
\<close>

theorem mode_smallest_most_frequent:
  assumes "numeric_values (deref h d) \<noteq> []"
  shows "\<exists>st h' m. calculateStatistics eng h (Some d) = (Inr (Some st), h') \<and>
           st_mode st = toFixed2 m \<and>
           smallest_most_frequent (map num_of (numeric_values (deref h d))) m"
proof -
  from calculateStatistics_result [OF assms] obtain m where
    m: "smallest_most_frequent (map num_of (sorted_numbers (deref h d))) m"
    and r: "calculateStatistics eng h (Some d) =
               (Inr (Some \<lparr>st_mean = toFixed2 (mean_of (sorted_numbers (deref h d))),
                           st_median = toFixed2 (median_of (sorted_numbers (deref h d))),
                           st_mode = toFixed2 m,
                           st_range = toFixed2 (range_of (sorted_numbers (deref h d))),
                           st_standardDeviation =
                             toFixed2 (standardDeviation_of eng (sorted_numbers (deref h d))
                                         (mean_of (sorted_numbers (deref h d))))\<rparr>),
                h @ [sorted_numbers (deref h d)])"
    by blast
  from smallest_most_frequent_mset [OF sorted_numbers_mset m]
  have "smallest_most_frequent (map num_of (numeric_values (deref h d))) m" .
  with r show ?thesis
    by (intro exI [of _ m] exI conjI) (assumption, simp, assumption)
qed

theorem mode_smallest_most_frequent_witness:
  "\<exists>st h'. calculateStatistics eng0 [[JNum (dbl 2), JNum (dbl 2), JStr ''x'', JNum (dbl 1), JNum (dbl 1)]]
              (Some 0) = (Inr (Some st), h') \<and>
           st_mode st = dbl 1"
proof -
  let ?h = "[[JNum (dbl 2), JNum (dbl 2), JStr ''x'', JNum (dbl 1), JNum (dbl 1)]]"
  have nv: "numeric_values (deref ?h 0) = [JNum (dbl 2), JNum (dbl 2), JNum (dbl 1), JNum (dbl 1)]"
    by (simp add: deref_def numeric_values_def typeof_def isNaN_def num_of_def)
  then have ne: "numeric_values (deref ?h 0) \<noteq> []" by simp
  from mode_smallest_most_frequent [OF ne] obtain st h' m where
    r: "calculateStatistics eng0 ?h (Some 0) = (Inr (Some st), h')" and md: "st_mode st = toFixed2 m"
    and m: "smallest_most_frequent (map num_of (numeric_values (deref ?h 0))) m"
    by blast
  from m have "m = dbl 1"
    unfolding nv
    by (auto simp: smallest_most_frequent_def num_of_def num_le_def rank_dbl dbl_eq_iff)
  with md have "st_mode st = dbl 1"
    by (simp add: toFixed2_dbl round2_def)
  with r show ?thesis by blast
qed

text \<open>
  The claim as stated fails on the input \<open>[2, 2, 1, 1]\<close>: a left-to-right scan
  of the input reaches the maximum count \<open>2\<close> first at the value \<open>2\<close>, and the
  calculator returns the mode \<open>1\<close>.
\<close>

theorem mode_input_order_counterexample:
  "mode_scan (map num_of (numeric_values [JNum (dbl 2), JNum (dbl 2), JNum (dbl 1), JNum (dbl 1)])) =
     Some (dbl 2) \<and>
   map_sum id (map_option st_mode)
     (fst (calculateStatistics eng0 [[JNum (dbl 2), JNum (dbl 2), JNum (dbl 1), JNum (dbl 1)]] (Some 0))) =
     Inr (Some (dbl 1))"
  by (simp add: calculateStatistics_def deref_def alloc_def assign_def numeric_values_def
      typeof_def isNaN_def num_of_def array_sort_def minus_compare_def num_sub_dbl
      is_positive_dbl dbl_eq_iff mode_scan_def mode_step_def Let_def toFixed2_dbl round2_def)

text \<open>The rounding of a value is determined by the value.\<close>

text \<open>The rounding of a value is determined by the value.\<close>

lemma half_away_2dp_unique:
  assumes "half_away_2dp x y" and "half_away_2dp x z"
  shows "y = z"
proof -
  from assms have y: "y * 100 \<in> \<int>" "\<bar>y - x\<bar> \<le> 1 / 200" "\<bar>y - x\<bar> = 1 / 200 \<longrightarrow> \<bar>x\<bar> < \<bar>y\<bar>"
    and z: "z * 100 \<in> \<int>" "\<bar>z - x\<bar> \<le> 1 / 200" "\<bar>z - x\<bar> = 1 / 200 \<longrightarrow> \<bar>x\<bar> < \<bar>z\<bar>"
    by (simp_all add: half_away_2dp_def)
  from y(1) z(1) obtain m n :: int where m: "y * 100 = of_int m" and n: "z * 100 = of_int n"
    by (auto elim!: Ints_cases)
  have "\<bar>real_of_int m - real_of_int n\<bar> \<le> 1"
    using y(2) z(2) m n by linarith
  then have mn: "\<bar>m - n\<bar> \<le> 1" by linarith
  have tie: False if d: "k = l + 1" and yk: "u * 100 = real_of_int k" and zl: "w * 100 = real_of_int l"
    and du: "\<bar>u - x\<bar> \<le> 1 / 200" and dw: "\<bar>w - x\<bar> \<le> 1 / 200"
    and au: "\<bar>u - x\<bar> = 1 / 200 \<longrightarrow> \<bar>x\<bar> < \<bar>u\<bar>"
    and aw: "\<bar>w - x\<bar> = 1 / 200 \<longrightarrow> \<bar>x\<bar> < \<bar>w\<bar>"
    for k l :: int and u w :: real
  proof -
    from d have r: "real_of_int k = real_of_int l + 1" by simp
    from r yk zl du dw have t: "\<bar>u - x\<bar> = 1 / 200" "\<bar>w - x\<bar> = 1 / 200"
      by linarith+
    with au aw have b: "\<bar>x\<bar> < \<bar>u\<bar>" "\<bar>x\<bar> < \<bar>w\<bar>" by simp_all
    consider "0 \<le> l" | "l \<le> - 1" by linarith
    then show False
    proof cases
      case 1
      then have "0 \<le> real_of_int l" by simp
      with r yk zl t b show False by linarith
    next
      case 2
      then have "real_of_int l \<le> - 1" by linarith
      with r yk zl t b show False by linarith
    qed
  qed
  have "m = n"
  proof (rule ccontr)
    assume "m \<noteq> n"
    with mn consider "m = n + 1" | "n = m + 1" by linarith
    then show False
    proof cases
      case 1
      from tie [OF 1 m n y(2) z(2) y(3) z(3)] show False .
    next
      case 2
      from tie [OF 2 n m z(2) y(2) z(3) y(3)] show False .
    qed
  qed
  with m n show "y = z" by simp
qed

lemma rounded_2dp_unique:
  assumes "rounded_2dp raw a" and "rounded_2dp raw b"
  shows "a = b"
proof (cases raw)
  case (Fin x)
  from assms Fin obtain y z where "half_away_2dp (dval x) y" "a = dbl y"
    "half_away_2dp (dval x) z" "b = dbl z"
    by (auto simp: rounded_2dp_def)
  with half_away_2dp_unique [of "dval x" y z] show ?thesis by simp
next
  case NaN with assms show ?thesis by (simp add: rounded_2dp_def)
next
  case PInf with assms show ?thesis by (simp add: rounded_2dp_def)
next
  case NInf with assms show ?thesis by (simp add: rounded_2dp_def)
qed

text \<open>From \<open>10\<^sup>2\<^sup>1\<close> on a double is an integer, which has no decimals to round.\<close>

lemma toFixed2_rounded: "rounded_2dp n (toFixed2 n)"
proof (cases n)
  case (Fin d)
  show ?thesis
  proof (cases "10 ^ 21 \<le> \<bar>dval d\<bar>")
    case True
    have "(2::real) ^ 52 \<le> 10 ^ 21" by simp
    with True have "2 ^ 52 \<le> \<bar>dval d\<bar>" by linarith
    from representable_large_int [OF representable_dval this] have "dval d \<in> \<int>" .
    then have "dval d * 100 \<in> \<int>" by (intro Ints_mult) simp_all
    then have "half_away_2dp (dval d) (dval d)" by (simp add: half_away_2dp_def)
    moreover have "toFixed2 n = dbl (dval d)" using True Fin by (simp add: toFixed2_def)
    ultimately show ?thesis unfolding Fin rounded_2dp_def by auto
  next
    case False
    then have "toFixed2 n = dbl (round2 (dval d))" using Fin by (simp add: toFixed2_def)
    with round2_half_away [of "dval d"] show ?thesis unfolding Fin rounded_2dp_def by auto
  qed
qed (simp_all add: rounded_2dp_def toFixed2_def)

text \<open>
  Claim C8. When the calculator returns statistics, each of the five outputs
  (mean, median, mode, range, standard deviation) is the value computed for
  it, a double, rounded to two decimals, half away from zero, by the same rule
  for all five: the number for the multiple of \<open>1/100\<close> at distance at most
  \<open>1/200\<close> from the exact value of that double, of larger absolute value when
  the double lies in the middle of two multiples.
\<close>

theorem outputs_rounded_half_away:
  assumes "numeric_values (deref h d) \<noteq> []"
  shows "\<exists>st h' m. calculateStatistics eng h (Some d) = (Inr (Some st), h') \<and>
           mode_scan (map num_of (sorted_numbers (deref h d))) = Some m \<and>
           rounded_2dp (mean_of (sorted_numbers (deref h d))) (st_mean st) \<and>
           rounded_2dp (median_of (sorted_numbers (deref h d))) (st_median st) \<and>
           rounded_2dp m (st_mode st) \<and>
           rounded_2dp (range_of (sorted_numbers (deref h d))) (st_range st) \<and>
           rounded_2dp (standardDeviation_of eng (sorted_numbers (deref h d))
                            (mean_of (sorted_numbers (deref h d))))
                         (st_standardDeviation st)"
proof -
  from calculateStatistics_result [OF assms] obtain m where
    m: "mode_scan (map num_of (sorted_numbers (deref h d))) = Some m"
    and r: "calculateStatistics eng h (Some d) =
               (Inr (Some \<lparr>st_mean = toFixed2 (mean_of (sorted_numbers (deref h d))),
                           st_median = toFixed2 (median_of (sorted_numbers (deref h d))),
                           st_mode = toFixed2 m,
                           st_range = toFixed2 (range_of (sorted_numbers (deref h d))),
                           st_standardDeviation =
                             toFixed2 (standardDeviation_of eng (sorted_numbers (deref h d))
                                         (mean_of (sorted_numbers (deref h d))))\<rparr>),
                h @ [sorted_numbers (deref h d)])"
    by blast
  show ?thesis
    by (intro exI [of _ m] exI conjI, rule r, rule m) (simp_all add: toFixed2_rounded)
qed

theorem outputs_rounded_half_away_witness:
  "\<exists>st h'. calculateStatistics eng0 [[JNum (dbl (3 / 8)), JNum (dbl (1 / 8))]] (Some 0) =
              (Inr (Some st), h') \<and>
           rounded_2dp (dbl (1 / 4)) (st_mean st) \<and>
           rounded_2dp (dbl (1 / 4)) (st_median st) \<and>
           rounded_2dp (dbl (1 / 8)) (st_mode st) \<and>
           rounded_2dp (dbl (1 / 4)) (st_range st) \<and>
           rounded_2dp (dbl (1 / 8)) (st_standardDeviation st) \<and>
           st_mean st = dbl (1 / 4) \<and> st_mode st = dbl (13 / 100)"
proof -
  let ?h = "[[JNum (dbl (3 / 8)), JNum (dbl (1 / 8))]]"
  have rep [simp]: "representable (1 / 8)" "representable (3 / 8)" "representable (1 / 4)"
    "representable (1 / 2)" "representable (- (1 / 8))" "representable (1 / 64)"
    "representable (1 / 32)"
    using representable_dyadic [of 1 "- 3"] representable_dyadic [of 3 "- 3"]
      representable_dyadic [of 1 "- 2"] representable_dyadic [of 1 "- 1"]
      representable_dyadic [of "- 1" "- 3"] representable_dyadic [of 1 "- 6"]
      representable_dyadic [of 1 "- 5"]
    by simp_all
  have nv: "numeric_values (deref ?h 0) = [JNum (dbl (3 / 8)), JNum (dbl (1 / 8))]"
    by (simp add: deref_def numeric_values_def typeof_def isNaN_def num_of_def)
  then have ne: "numeric_values (deref ?h 0) \<noteq> []" by simp
  have S: "sorted_numbers (deref ?h 0) = [JNum (dbl (1 / 8)), JNum (dbl (3 / 8))]"
    unfolding sorted_numbers_def nv
    by (simp add: array_sort_def minus_compare_def num_of_def num_sub_dbl is_positive_dbl)
  have mean: "mean_of [JNum (dbl (1 / 8)), JNum (dbl (3 / 8))] = dbl (1 / 4)"
    by (simp add: mean_of_def sum_of_def num_of_def num_add_dbl num_div_dbl)
  have median: "median_of [JNum (dbl (1 / 8)), JNum (dbl (3 / 8))] = dbl (1 / 4)"
    by (simp add: median_of_def array_get_def num_of_def num_add_dbl num_div_dbl)
  have range: "range_of [JNum (dbl (1 / 8)), JNum (dbl (3 / 8))] = dbl (1 / 4)"
    by (simp add: range_of_def array_get_def num_of_def num_sub_dbl)
  have root: "sqrt (1 / 64) = 1 / 8"
    by (rule real_sqrt_unique) (simp_all add: power2_eq_square)
  have sq: "square_nearest (dbl (- (1 / 8))) = dbl (1 / 64)" "square_nearest (dbl (1 / 8)) = dbl (1 / 64)"
    by (simp_all add: square_nearest_def dbl_representable dval_Dbl)
  have rt: "sqrt_nearest (dbl (1 / 64)) = dbl (1 / 8)"
    by (simp add: sqrt_nearest_def dbl_representable dval_Dbl root)
  have dev: "standardDeviation_of eng0 [JNum (dbl (1 / 8)), JNum (dbl (3 / 8))] (dbl (1 / 4)) = dbl (1 / 8)"
    by (simp add: standardDeviation_of_def eng0_def sum_of_def num_of_def num_sub_dbl sq
        num_add_dbl num_div_dbl rt)
  have mode: "mode_scan (map num_of [JNum (dbl (1 / 8)), JNum (dbl (3 / 8))]) = Some (dbl (1 / 8))"
    by (simp add: mode_scan_def mode_step_def num_of_def Let_def dbl_eq_iff)
  have r8: "round2 (1 / 8) = 13 / 100" "round2 (1 / 4) = 1 / 4"
    by (simp_all add: round2_def)
  from outputs_rounded_half_away [OF ne, of eng0] obtain st h' m where
    r: "calculateStatistics eng0 ?h (Some 0) = (Inr (Some st), h')"
    and m: "mode_scan (map num_of (sorted_numbers (deref ?h 0))) = Some m"
    and h: "rounded_2dp (mean_of (sorted_numbers (deref ?h 0))) (st_mean st)"
      "rounded_2dp (median_of (sorted_numbers (deref ?h 0))) (st_median st)"
      "rounded_2dp m (st_mode st)"
      "rounded_2dp (range_of (sorted_numbers (deref ?h 0))) (st_range st)"
      "rounded_2dp (standardDeviation_of eng0 (sorted_numbers (deref ?h 0))
                            (mean_of (sorted_numbers (deref ?h 0))))
                         (st_standardDeviation st)"
    by (elim exE conjE)
  from m have m': "m = dbl (1 / 8)"
    unfolding S mode by simp
  from h have h': "rounded_2dp (dbl (1 / 4)) (st_mean st) \<and>
           rounded_2dp (dbl (1 / 4)) (st_median st) \<and>
           rounded_2dp (dbl (1 / 8)) (st_mode st) \<and>
           rounded_2dp (dbl (1 / 4)) (st_range st) \<and>
           rounded_2dp (dbl (1 / 8)) (st_standardDeviation st)"
    unfolding S mean median range dev m' by (intro conjI)
  have "rounded_2dp (dbl (1 / 4)) (toFixed2 (dbl (1 / 4)))"
    "rounded_2dp (dbl (1 / 8)) (toFixed2 (dbl (1 / 8)))"
    by (rule toFixed2_rounded)+
  then have "rounded_2dp (dbl (1 / 4)) (dbl (1 / 4))" "rounded_2dp (dbl (1 / 8)) (dbl (13 / 100))"
    by (simp_all add: toFixed2_dbl r8)
  with h' have v: "st_mean st = dbl (1 / 4)" "st_mode st = dbl (13 / 100)"
    by (blast intro: rounded_2dp_unique)+
  with r h' show ?thesis
    by (intro exI [of _ st] exI [of _ h'] conjI) simp_all
qed

subsection \<open>The calculator at some known inputs\<close>

text \<open>
  The mean is computed in doubles before it is rounded to two decimals: for
  the doubles nearest to \<open>0.01\<close> and \<open>0.02\<close> the sum is the double just below
  \<open>0.03\<close>, its half lies below \<open>0.015\<close>, and the output is \<open>0.01\<close>; and a sum that
  overflows gives \<^verbatim>\<open>Infinity\<close>.
\<close>

lemma statistics_mean:
  assumes "numeric_values (deref h d) \<noteq> []"
  shows "map_sum id (map_option st_mean) (fst (calculateStatistics eng h (Some d))) =
           Inr (Some (toFixed2 (mean_of (sorted_numbers (deref h d)))))"
proof -
  from calculateStatistics_result [OF assms, of eng] obtain m where
    "calculateStatistics eng h (Some d) =
               (Inr (Some \<lparr>st_mean = toFixed2 (mean_of (sorted_numbers (deref h d))),
                           st_median = toFixed2 (median_of (sorted_numbers (deref h d))),
                           st_mode = toFixed2 m,
                           st_range = toFixed2 (range_of (sorted_numbers (deref h d))),
                           st_standardDeviation =
                             toFixed2 (standardDeviation_of eng (sorted_numbers (deref h d))
                                         (mean_of (sorted_numbers (deref h d))))\<rparr>),
                h @ [sorted_numbers (deref h d)])"
    by (elim exE conjE)
  then show ?thesis by simp
qed

lemma sorted_pair:
  assumes "representable a" "representable b" "a \<le> b"
  shows "sorted_numbers [JNum (dbl a), JNum (dbl b)] = [JNum (dbl a), JNum (dbl b)]"
  using assms
  by (simp add: sorted_numbers_def numeric_values_def typeof_def isNaN_def num_of_def
      array_sort_def minus_compare_def is_positive_minus rank_dbl)

lemma mean_pair: "mean_of [JNum x, JNum y] = num_div (num_add x y) (dbl 2)"
  by (simp add: mean_of_def sum_of_def num_of_def)

lemma mean_of_cents:
  "map_sum id (map_option st_mean)
     (fst (calculateStatistics eng [[JNum (dbl (1 / 100)), JNum (dbl (1 / 50))]] (Some 0))) =
     Inr (Some (dbl (1 / 100)))"
proof -
  let ?a = "5764607523034235 / 2 ^ 59 :: real"
  let ?b = "5764607523034235 / 2 ^ 58 :: real"
  let ?c = "8646911284551352 / 2 ^ 58 :: real"
  have r: "representable ?a" "representable ?b" "representable ?c" "representable (?c / 2)"
    using representable_dyadic [of 5764607523034235 "- 59"]
      representable_dyadic [of 5764607523034235 "- 58"]
      representable_dyadic [of 8646911284551352 "- 58"]
      representable_dyadic [of 8646911284551352 "- 59"]
    by simp_all
  have "rnd (1 / 100) = ?a"
    by (subst rnd_eval [of "- 7"]) (simp_all add: nearest_even_def)
  with dbl_rnd [of "1 / 100"] have a: "dbl (1 / 100) = dbl ?a" by (simp only:)
  have "rnd (1 / 50) = ?b"
    by (subst rnd_eval [of "- 6"]) (simp_all add: nearest_even_def)
  with dbl_rnd [of "1 / 50"] have b: "dbl (1 / 50) = dbl ?b" by (simp only:)
  have "rnd (?a + ?b) = ?c"
    by (subst rnd_eval [of "- 6"]) (simp_all add: nearest_even_def)
  with dbl_rnd [of "?a + ?b"] have c: "dbl (?a + ?b) = dbl ?c" by (simp only:)
  have d: "deref [[JNum (dbl ?a), JNum (dbl ?b)]] 0 = [JNum (dbl ?a), JNum (dbl ?b)]"
    by (simp add: deref_def)
  have ne: "numeric_values (deref [[JNum (dbl ?a), JNum (dbl ?b)]] 0) \<noteq> []"
    unfolding d by (simp add: numeric_values_def typeof_def isNaN_def num_of_def)
  have s: "sorted_numbers [JNum (dbl ?a), JNum (dbl ?b)] = [JNum (dbl ?a), JNum (dbl ?b)]"
    by (rule sorted_pair [OF r(1,2)]) simp
  have "mean_of [JNum (dbl ?a), JNum (dbl ?b)] = num_div (dbl (?a + ?b)) (dbl 2)"
    unfolding mean_pair by (simp only: num_add_dbl [OF r(1,2)])
  also have "\<dots> = dbl (?c / 2)"
    unfolding c by (rule num_div_dbl [OF r(3)]) simp_all
  finally have m: "mean_of [JNum (dbl ?a), JNum (dbl ?b)] = dbl (?c / 2)" .
  have rr: "round2 (?c / 2) = 1 / 100"
    by (simp add: round2_def)
  have "toFixed2 (dbl (?c / 2)) = dbl (round2 (?c / 2))"
    by (rule toFixed2_dbl [OF r(4)]) simp
  then have t: "toFixed2 (dbl (?c / 2)) = dbl (1 / 100)"
    unfolding rr .
  show ?thesis
    unfolding a b statistics_mean [OF ne] d s m t ..
qed

lemma mean_overflows:
  "map_sum id (map_option st_mean)
     (fst (calculateStatistics eng [[JNum (dbl (2 ^ 1023)), JNum (dbl (2 ^ 1023))]] (Some 0))) =
     Inr (Some PInf)"
proof -
  let ?a = "2 ^ 1023 :: real"
  have r: "representable ?a"
    using representable_dyadic [of 1 1023] by simp
  have c: "dbl (?a + ?a) = PInf"
    by (rule dbl_overflow) simp
  have d: "deref [[JNum (dbl ?a), JNum (dbl ?a)]] 0 = [JNum (dbl ?a), JNum (dbl ?a)]"
    by (simp add: deref_def)
  have ne: "numeric_values (deref [[JNum (dbl ?a), JNum (dbl ?a)]] 0) \<noteq> []"
    unfolding d by (simp add: numeric_values_def typeof_def isNaN_def num_of_def)
  have s: "sorted_numbers [JNum (dbl ?a), JNum (dbl ?a)] = [JNum (dbl ?a), JNum (dbl ?a)]"
    by (rule sorted_pair [OF r r]) simp
  have two: "dbl 2 = Fin (Dbl 2)" "dval (Dbl 2) = 2"
    by (simp_all add: dbl_representable dval_Dbl)
  have "mean_of [JNum (dbl ?a), JNum (dbl ?a)] = num_div (dbl (?a + ?a)) (dbl 2)"
    unfolding mean_pair by (simp only: num_add_dbl [OF r r])
  also have "\<dots> = PInf"
    unfolding c two by (simp add: two)
  finally have m: "mean_of [JNum (dbl ?a), JNum (dbl ?a)] = PInf" .
  show ?thesis
    unfolding statistics_mean [OF ne] d s m by (simp add: toFixed2_def)
qed

section \<open>Properties of the tabular ingestor\<close>


lemma row_object_snoc:
  "row_object eng (headers @ [header]) row =
     obj_set (row_object eng headers row) (toPropertyKey eng header)
       (if array_get row (length headers) \<noteq> JUndefined then array_get row (length headers) else JNull)"
  by (simp add: row_object_def)

lemma row_object_Nil: "row_object eng [] row = empty_object"
  by (simp add: row_object_def)

lemma obj_set_other:
  "k' \<noteq> k \<Longrightarrow> map_of (own (obj_set obj k v)) k' = map_of (own obj) k'"
  by (simp add: obj_set_def update_conv')

lemma obj_set_same:
  "k \<noteq> ''__proto__'' \<Longrightarrow> map_of (own (obj_set obj k v)) k = Some v"
  by (simp add: obj_set_def update_conv')

lemma obj_set_keys:
  "fst ` set (own (obj_set obj k v)) \<subseteq> insert k (fst ` set (own obj))"
  by (auto simp: obj_set_def dom_update)

lemma row_object_cells:
  "fst ` set (own (row_object eng headers row)) \<subseteq> set (map (toPropertyKey eng) headers) \<and>
   (\<forall>i < length headers.
      toPropertyKey eng (headers ! i) \<noteq> ''__proto__'' \<and>
      (\<forall>j. i < j \<and> j < length headers \<longrightarrow>
           toPropertyKey eng (headers ! j) \<noteq> toPropertyKey eng (headers ! i)) \<longrightarrow>
      map_of (own (row_object eng headers row)) (toPropertyKey eng (headers ! i)) =
        Some (if i < length row \<and> row ! i \<noteq> JUndefined then row ! i else JNull))"
proof (induction headers rule: rev_induct)
  case Nil
  show ?case by (simp add: row_object_Nil empty_object_def)
next
  case (snoc header headers)
  let ?o = "row_object eng headers row"
  let ?k = "toPropertyKey eng header"
  let ?v = "if array_get row (length headers) \<noteq> JUndefined then array_get row (length headers) else JNull"
  have step: "row_object eng (headers @ [header]) row = obj_set ?o ?k ?v"
    by (rule row_object_snoc)
  have v: "?v = (if length headers < length row \<and> row ! length headers \<noteq> JUndefined
                 then row ! length headers else JNull)"
    by (simp add: array_get_def)
  have 1: "fst ` set (own (row_object eng (headers @ [header]) row)) \<subseteq>
             set (map (toPropertyKey eng) (headers @ [header]))"
  proof -
    from snoc.IH have "insert ?k (fst ` set (own ?o)) \<subseteq> set (map (toPropertyKey eng) (headers @ [header]))"
      by auto
    with obj_set_keys [of ?o ?k ?v] show ?thesis
      unfolding step by (rule subset_trans)
  qed
  have 2: "map_of (own (row_object eng (headers @ [header]) row))
             (toPropertyKey eng ((headers @ [header]) ! i)) =
           Some (if i < length row \<and> row ! i \<noteq> JUndefined then row ! i else JNull)"
    if i: "i < length (headers @ [header])"
      and np: "toPropertyKey eng ((headers @ [header]) ! i) \<noteq> ''__proto__''"
      and later: "\<forall>j. i < j \<and> j < length (headers @ [header]) \<longrightarrow>
                 toPropertyKey eng ((headers @ [header]) ! j) \<noteq> toPropertyKey eng ((headers @ [header]) ! i)"
    for i
  proof (cases "i = length headers")
    case True
    with np have "?k \<noteq> ''__proto__''" by simp
    then show ?thesis
      unfolding step using True by (simp add: obj_set_same v)
  next
    case False
    with i have il: "i < length headers" by simp
    from later [rule_format, of "length headers"] il
    have ne: "toPropertyKey eng (headers ! i) \<noteq> ?k"
      by (simp add: nth_append)
    from np il have np': "toPropertyKey eng (headers ! i) \<noteq> ''__proto__''"
      by (simp add: nth_append)
    have "\<forall>j. i < j \<and> j < length headers \<longrightarrow>
            toPropertyKey eng (headers ! j) \<noteq> toPropertyKey eng (headers ! i)"
    proof (intro allI impI)
      fix j assume j: "i < j \<and> j < length headers"
      with later [rule_format, of j] il show
        "toPropertyKey eng (headers ! j) \<noteq> toPropertyKey eng (headers ! i)"
        by (simp add: nth_append)
    qed
    with snoc.IH il np' have "map_of (own ?o) (toPropertyKey eng (headers ! i)) =
        Some (if i < length row \<and> row ! i \<noteq> JUndefined then row ! i else JNull)"
      by blast
    with ne il show ?thesis
      unfolding step by (simp add: obj_set_other nth_append)
  qed
  from 1 2 show ?case by blast
qed

lemma processExcelFile_rows:
  assumes "jsonData \<noteq> []" and "hd jsonData \<noteq> []"
  shows "\<exists>r. processExcelFile eng jsonData = Inr r \<and>
             res_rowCount r = length (tl jsonData) \<and>
             res_data r = map (row_object eng (hd jsonData)) (tl jsonData)"
  using assms by (simp add: processExcelFile_def Let_def)

text \<open>
  Claim C5 at a sheet whose first header is \<^verbatim>\<open>__proto__\<close>. The row object has no
  entry for that header: the assignment \<^verbatim>\<open>obj['__proto__'] = 5\<close> reaches the
  inherited accessor, which ignores a number, and reading the key back gives
  \<^verbatim>\<open>Object.prototype\<close>. A header with any other name is mapped to the cell at
  its position (the last one, when the name is repeated), or to \<^verbatim>\<open>null\<close> when the
  cell is missing, as \<open>row_object_cells\<close> shows.
\<close>

theorem proto_header_dropped:
  "map_sum id (\<lambda>r. (res_data r, res_rowCount r))
     (processExcelFile eng0 [[JStr ''__proto__'', JStr ''a''], [JNum (dbl 5), JNum (dbl 1)]]) =
     Inr ([\<lparr>own = [(''a'', JNum (dbl 1))], hasProto = True\<rparr>], 1) \<and>
   obj_get \<lparr>own = [(''a'', JNum (dbl 1))], hasProto = True\<rparr> ''__proto__'' = JBuiltin ''__proto__''"
  by (simp add: processExcelFile_def Let_def row_object_def obj_set_def empty_object_def
      toPropertyKey_def array_get_def obj_get_def objectPrototypeNames_def)

end
